theory Spec2Isabelle
  imports Complex_Main "HOL-Library.Char_ord" "HOL-Library.List_Lexorder"
    "HOL-Library.Code_Target_Nat"
begin

section \<open>JavaScript strings and numbers used by the month-key code\<close>

text \<open>
  Month keys are JavaScript strings. They are modelled as \<open>string\<close> (a list of 8-bit
  characters, read as code units below 256); the order on strings is the lexicographic
  order by code unit, which is what JavaScript's \<open><\<close> on strings computes.

  A JavaScript \<open>number\<close> that holds an integer is modelled as \<open>int\<close>, and \<open>NaN\<close> as
  \<open>None\<close>; amounts of money are modelled as \<open>real\<close>. In the month-key code and in the
  functions of \<open>BudgetCalculator\<close> as first given rounding of IEEE doubles is not
  modelled: an integer keeps all its digits (a double is exact up to \<open>2^53\<close>, and is
  printed with an exponent from \<open>10^21\<close> on), and sums of amounts are exact. The total of
  a month is given a second time, with the rounding of every addition and subtraction,
  in the section on double arithmetic.
\<close>

text \<open>\<open>String.prototype.split\<close> with a one-character separator: never returns the empty list.\<close>

fun split_on :: "char \<Rightarrow> string \<Rightarrow> string list" where
  "split_on sep [] = [[]]"
| "split_on sep (c # cs) =
     (if c = sep then [] # split_on sep cs
      else (case split_on sep cs of
              [] \<Rightarrow> [[c]]
            | p # ps \<Rightarrow> (c # p) # ps))"

text \<open>
  The destructuring \<open>const [year, month] = monthYear.split('-')\<close>: a missing element is
  \<open>undefined\<close>, modelled as \<open>None\<close>.
\<close>

definition destructure2 :: "string list \<Rightarrow> string option \<times> string option" where
  "destructure2 parts =
     (case parts of
        [] \<Rightarrow> (None, None)
      | [y] \<Rightarrow> (Some y, None)
      | y # m # _ \<Rightarrow> (Some y, Some m))"

text \<open>A string value spliced into a template literal; \<open>undefined\<close> prints as its name.\<close>

definition template_str :: "string option \<Rightarrow> string" where
  "template_str v = (case v of None \<Rightarrow> ''undefined'' | Some s \<Rightarrow> s)"

definition is_js_space :: "char \<Rightarrow> bool" where
  "is_js_space c = (c \<in> set [CHR 0x09, CHR 0x0A, CHR 0x0B, CHR 0x0C, CHR 0x0D, CHR 0x20, CHR 0xA0])"

definition is_digit :: "char \<Rightarrow> bool" where
  "is_digit c = (CHR ''0'' \<le> c \<and> c \<le> CHR ''9'')"

definition digit_val :: "char \<Rightarrow> nat" where
  "digit_val c = of_char c - 48"

definition is_hex_digit :: "char \<Rightarrow> bool" where
  "is_hex_digit c =
     (is_digit c \<or> (CHR ''a'' \<le> c \<and> c \<le> CHR ''f'') \<or> (CHR ''A'' \<le> c \<and> c \<le> CHR ''F''))"

definition hex_digit_val :: "char \<Rightarrow> nat" where
  "hex_digit_val c =
     (if is_digit c then digit_val c
      else if CHR ''a'' \<le> c \<and> c \<le> CHR ''f'' then of_char c - 87
      else of_char c - 55)"

text \<open>The number written by a run of digits in a radix, most significant digit first.\<close>

definition radix_value :: "nat \<Rightarrow> (char \<Rightarrow> nat) \<Rightarrow> string \<Rightarrow> nat" where
  "radix_value r dv z = foldl (\<lambda>acc c. r * acc + dv c) 0 z"

text \<open>
  \<open>parseInt(s)\<close> without a radix: leading white space is skipped, one sign is read, a
  \<open>0x\<close> or \<open>0X\<close> prefix selects radix 16, the longest run of digits is converted, and the
  result is \<open>NaN\<close> when that run is empty. \<open>parseInt(undefined)\<close> is \<open>NaN\<close>.
\<close>

definition parseInt_str :: "string \<Rightarrow> int option" where
  "parseInt_str str =
     (let s = dropWhile is_js_space str;
          neg = (case s of [] \<Rightarrow> False | c # _ \<Rightarrow> c = CHR ''-'');
          s1 = (case s of [] \<Rightarrow> s | c # r \<Rightarrow> if c = CHR ''-'' \<or> c = CHR ''+'' then r else s);
          hex = (case s1 of a # b # _ \<Rightarrow> a = CHR ''0'' \<and> (b = CHR ''x'' \<or> b = CHR ''X'') | _ \<Rightarrow> False);
          z = (if hex then takeWhile is_hex_digit (drop 2 s1) else takeWhile is_digit s1);
          v = (if hex then radix_value 16 hex_digit_val z else radix_value 10 digit_val z)
      in if z = [] then None else Some (if neg then - int v else int v))"

definition parseInt :: "string option \<Rightarrow> int option" where
  "parseInt v = (case v of None \<Rightarrow> None | Some s \<Rightarrow> parseInt_str s)"

text \<open>Decimal digits of a natural number, most significant first.\<close>

definition digit_char :: "nat \<Rightarrow> char" where
  "digit_char n = char_of (48 + n)"

fun nat_digits :: "nat \<Rightarrow> string" where
  "nat_digits n = (if n < 10 then [digit_char n] else nat_digits (n div 10) @ [digit_char (n mod 10)])"

declare nat_digits.simps [simp del]

text \<open>\<open>Number.prototype.toString\<close> (also the conversion inside a template literal).\<close>

definition num_toString :: "int option \<Rightarrow> string" where
  "num_toString v =
     (case v of
        None \<Rightarrow> ''NaN''
      | Some n \<Rightarrow> if n < 0 then CHR ''-'' # nat_digits (nat (- n)) else nat_digits (nat n))"

text \<open>\<open>s.padStart(n, c)\<close> for a one-character pad string.\<close>

definition padStart :: "nat \<Rightarrow> char \<Rightarrow> string \<Rightarrow> string" where
  "padStart n c s = replicate (n - length s) c @ s"

text \<open>Arithmetic on numbers that may be \<open>NaN\<close>.\<close>

definition num_add :: "int option \<Rightarrow> int \<Rightarrow> int option" where
  "num_add v k = map_option (\<lambda>n. n + k) v"

section \<open>Month navigation\<close>

text \<open>
  \<open>MonthNavigation.getPreviousMonth\<close> and \<open>BudgetCalculator.getPreviousMonth\<close> have the same
  body, and so have the two \<open>getNextMonth\<close>; each pair is modelled once.
\<close>

definition getPreviousMonth :: "string \<Rightarrow> string" where
  "getPreviousMonth monthYear =
     (let (year, month) = destructure2 (split_on CHR ''-'' monthYear);
          yearNum = parseInt year;
          monthNum = parseInt month
      in if monthNum = Some 1
         then num_toString (num_add yearNum (- 1)) @ ''-12''
         else template_str year @ ''-'' @ padStart 2 CHR ''0'' (num_toString (num_add monthNum (- 1))))"

definition getNextMonth :: "string \<Rightarrow> string" where
  "getNextMonth monthYear =
     (let (year, month) = destructure2 (split_on CHR ''-'' monthYear);
          yearNum = parseInt year;
          monthNum = parseInt month
      in if monthNum = Some 12
         then num_toString (num_add yearNum 1) @ ''-01''
         else template_str year @ ''-'' @ padStart 2 CHR ''0'' (num_toString (num_add monthNum 1)))"


subsection \<open>Well-formed month keys\<close>

text \<open>
  A well-formed month key is the zero-padded \<open>YYYY-MM\<close> form of the specification: four
  digits, a dash, and two digits that write a month from 01 to 12. \<open>key_year\<close> and
  \<open>key_month\<close> read the two numbers of such a key, and \<open>month_index\<close> counts months
  from January of year 0.
\<close>

definition key_year :: "string \<Rightarrow> nat" where
  "key_year k = radix_value 10 digit_val (take 4 k)"

definition key_month :: "string \<Rightarrow> nat" where
  "key_month k = radix_value 10 digit_val (drop 5 k)"

definition wf_month_key :: "string \<Rightarrow> bool" where
  "wf_month_key k =
     (length k = 7 \<and> list_all is_digit (take 4 k) \<and> take 1 (drop 4 k) = ''-'' \<and>
      list_all is_digit (drop 5 k) \<and> 1 \<le> key_month k \<and> key_month k \<le> 12)"

definition month_index :: "string \<Rightarrow> nat" where
  "month_index k = 12 * key_year k + key_month k"


section \<open>Data model\<close>

text \<open>
  The interfaces \<open>Transaction\<close>, \<open>MonthlyBudget\<close> and \<open>BudgetSummary\<close>. A field whose name
  is taken in HOL, or is shared by two interfaces, carries a prefix.
\<close>

datatype transaction_type = Withdraw | Deposit

record transaction =
  tx_id :: int
  device_id :: string
  tx_name :: string
  amount :: real
  tx_type :: transaction_type
  timestamp :: string
  tx_created_at :: string
  tx_updated_at :: string
  username :: "string option"

record monthly_budget =
  budget_id :: int
  month_year :: string
  budget_amount :: real
  rollover_enabled :: bool
  created_at :: string
  updated_at :: string

record budget_summary =
  summary_month_year :: string
  summary_budget_amount :: real
  total_transactions :: real
  remaining_budget :: real
  is_over_budget :: bool
  summary_rollover_enabled :: bool

subsection \<open>The host's \<open>Date\<close> object\<close>

text \<open>
  The code reads the clock, parses time stamps and builds local dates through the
  JavaScript \<open>Date\<close> object of the device. That object is not code of the repository; it
  is a parameter of the model. A \<open>Date\<close> is modelled by its time value in milliseconds,
  \<open>None\<close> for \<open>Invalid Date\<close>.
  \<^item> \<open>date_now\<close> is \<open>Date.now()\<close>;
  \<^item> \<open>date_parse s\<close> is the time value of \<open>new Date(s)\<close>;
  \<^item> \<open>date_local y m\<close> is the time value of \<open>new Date(y, m, 1)\<close>, the first instant of
    a month in the device's time zone, for arguments that are not \<open>NaN\<close> (the limit of
    8.64e15 milliseconds on time values is not modelled);
  \<^item> \<open>date_getFullYear\<close> and \<open>date_getMonth\<close> read the local year and the local month
    (0 to 11) of a valid date;
  \<^item> \<open>date_toISOString\<close> prints a valid date.
\<close>

record js_date =
  date_now :: int
  date_parse :: "string \<Rightarrow> int option"
  date_local :: "int \<Rightarrow> int \<Rightarrow> int"
  date_getFullYear :: "int \<Rightarrow> int"
  date_getMonth :: "int \<Rightarrow> int"
  date_toISOString :: "int \<Rightarrow> string"

text \<open>\<open>new Date(y, m, 1)\<close> with arguments that may be \<open>NaN\<close>.\<close>

definition new_Date_local :: "js_date \<Rightarrow> int option \<Rightarrow> int option \<Rightarrow> int option" where
  "new_Date_local env y m =
     (case y of
        None \<Rightarrow> None
      | Some yv \<Rightarrow> (case m of None \<Rightarrow> None | Some mv \<Rightarrow> Some (date_local env yv mv)))"

text \<open>Comparison of two dates by time value; every comparison with \<open>NaN\<close> is false.\<close>

definition date_ge :: "int option \<Rightarrow> int option \<Rightarrow> bool" where
  "date_ge a b = (case a of None \<Rightarrow> False | Some x \<Rightarrow> (case b of None \<Rightarrow> False | Some y \<Rightarrow> y \<le> x))"

definition date_lt :: "int option \<Rightarrow> int option \<Rightarrow> bool" where
  "date_lt a b = (case a of None \<Rightarrow> False | Some x \<Rightarrow> (case b of None \<Rightarrow> False | Some y \<Rightarrow> x < y))"

text \<open>
  Exceptions are values. The one exception the calculator can throw is the \<open>RangeError\<close> of
  \<open>toISOString\<close> on an invalid date.
\<close>

datatype js_error = RangeError

definition toISOString :: "js_date \<Rightarrow> int option \<Rightarrow> js_error + string" where
  "toISOString env d = (case d of None \<Rightarrow> Inl RangeError | Some t \<Rightarrow> Inr (date_toISOString env t))"

section \<open>BudgetCalculator\<close>

text \<open>
  \<open>getTransactionsForMonth\<close>. The first \<open>console.log\<close> call evaluates
  \<open>startDate.toISOString()\<close> and \<open>endDate.toISOString()\<close>, which throw on an invalid date;
  apart from that, logging has no effect on the result and is not modelled.
\<close>

definition getTransactionsForMonth ::
    "js_date \<Rightarrow> transaction list \<Rightarrow> string \<Rightarrow> js_error + transaction list" where
  "getTransactionsForMonth env transactions monthYear =
     (let (year, month) = destructure2 (split_on CHR ''-'' monthYear);
          startDate = new_Date_local env (parseInt year) (num_add (parseInt month) (- 1));
          endDate = new_Date_local env (parseInt year) (parseInt month)
      in case toISOString env startDate of
           Inl e \<Rightarrow> Inl e
         | Inr _ \<Rightarrow>
             (case toISOString env endDate of
                Inl e \<Rightarrow> Inl e
              | Inr _ \<Rightarrow>
                  Inr (filter (\<lambda>transaction.
                                 let transactionDate = date_parse env (timestamp transaction)
                                 in date_ge transactionDate startDate \<and> date_lt transactionDate endDate)
                              transactions)))"

text \<open>
  \<open>calculateTotalForMonth\<close>, the \<open>reduce\<close> over the month's transactions in list order, in
  exact arithmetic. The same function with every step rounded to a double is
  \<open>calculateTotalForMonth_ieee\<close> in the section on double arithmetic.
\<close>

definition calculateTotalForMonth ::
    "js_date \<Rightarrow> transaction list \<Rightarrow> string \<Rightarrow> js_error + real" where
  "calculateTotalForMonth env transactions monthYear =
     (case getTransactionsForMonth env transactions monthYear of
        Inl e \<Rightarrow> Inl e
      | Inr monthTransactions \<Rightarrow>
          Inr (foldl (\<lambda>total transaction.
                        case tx_type transaction of
                          Withdraw \<Rightarrow> total + amount transaction
                        | Deposit \<Rightarrow> total - amount transaction)
                     0 monthTransactions))"

text \<open>
  \<open>calculateRolloverAmount\<close> calls itself on the previous month, and nothing in the code
  bounds the recursion. The result \<open>None\<close> stands for a call that does not return;
  \<open>Some (Inl e)\<close> for a thrown exception and \<open>Some (Inr r)\<close> for the returned number.
\<close>

partial_function (option) calculateRolloverAmount ::
    "js_date \<Rightarrow> transaction list \<Rightarrow> monthly_budget list \<Rightarrow> string \<Rightarrow> (js_error + real) option" where
  "calculateRolloverAmount env transactions budgets currentMonth =
     (let previousMonth = getPreviousMonth currentMonth
      in case find (\<lambda>b. month_year b = previousMonth) budgets of
           None \<Rightarrow> Some (Inr 0)
         | Some prevBudget \<Rightarrow>
             Option.bind
               (if rollover_enabled prevBudget
                then calculateRolloverAmount env transactions budgets previousMonth
                else Some (Inr 0))
               (\<lambda>inner.
                  Some (case inner of
                          Inl e \<Rightarrow> Inl e
                        | Inr rolloverAmount \<Rightarrow>
                            (case getTransactionsForMonth env transactions previousMonth of
                               Inl e \<Rightarrow> Inl e
                             | Inr prevMonthTransactions \<Rightarrow>
                                 let prevMonthSumTransactions =
                                       foldl (\<lambda>total transaction.
                                                case tx_type transaction of
                                                  Withdraw \<Rightarrow> total + amount transaction
                                                | Deposit \<Rightarrow> total - amount transaction)
                                             0 prevMonthTransactions
                                 in Inr (budget_amount prevBudget + rolloverAmount
                                           - prevMonthSumTransactions)))))"

declare calculateRolloverAmount.simps [code]

text \<open>
  \<open>calculateBudgetSummary\<close>: the local variable \<open>budget\<close> is found or created, then
  rewritten with the recalculated amount; the summary is built from it.
\<close>

definition calculateBudgetSummary ::
    "js_date \<Rightarrow> string \<Rightarrow> transaction list \<Rightarrow> monthly_budget list \<Rightarrow> real
       \<Rightarrow> (js_error + budget_summary) option" where
  "calculateBudgetSummary env monthYear transactions budgets defaultBudgetAmount =
     Option.bind
       (case find (\<lambda>b. month_year b = monthYear) budgets of
          None \<Rightarrow>
            map_option
              (map_sum id (\<lambda>rolloverAmount.
                 \<lparr>budget_id = 0, month_year = monthYear,
                  budget_amount = defaultBudgetAmount + rolloverAmount,
                  rollover_enabled = True,
                  created_at = date_toISOString env (date_now env),
                  updated_at = date_toISOString env (date_now env)\<rparr>))
              (calculateRolloverAmount env transactions budgets monthYear)
        | Some budget \<Rightarrow>
            if rollover_enabled budget
            then map_option
                   (map_sum id (\<lambda>rolloverAmount.
                      budget\<lparr>budget_amount := defaultBudgetAmount + rolloverAmount\<rparr>))
                   (calculateRolloverAmount env transactions budgets monthYear)
            else Some (Inr (budget\<lparr>budget_amount := defaultBudgetAmount\<rparr>)))
       (\<lambda>found.
          Some (case found of
                  Inl e \<Rightarrow> Inl e
                | Inr budget \<Rightarrow>
                    (case calculateTotalForMonth env transactions monthYear of
                       Inl e \<Rightarrow> Inl e
                     | Inr totalTransactions \<Rightarrow>
                         let remainingBudget = budget_amount budget - totalTransactions;
                             isOverBudget = remainingBudget < 0
                         in Inr \<lparr>summary_month_year = monthYear,
                                 summary_budget_amount = budget_amount budget,
                                 total_transactions = totalTransactions,
                                 remaining_budget = remainingBudget,
                                 is_over_budget = isOverBudget,
                                 summary_rollover_enabled = rollover_enabled budget\<rparr>)))"

definition recalculateWithRolloverChange ::
    "js_date \<Rightarrow> string \<Rightarrow> transaction list \<Rightarrow> monthly_budget list \<Rightarrow> bool \<Rightarrow> real
       \<Rightarrow> (js_error + budget_summary) option" where
  "recalculateWithRolloverChange env monthYear transactions budgets newRolloverEnabled
       defaultBudgetAmount =
     (let updatedBudgets =
            map (\<lambda>budget. if month_year budget = monthYear
                           then budget\<lparr>rollover_enabled := newRolloverEnabled\<rparr>
                           else budget)
                budgets
      in calculateBudgetSummary env monthYear transactions updatedBudgets defaultBudgetAmount)"


section \<open>MonthNavigation.getFirstTrackedMonth\<close>

text \<open>
  \<open>Array.prototype.sort\<close> with a comparison function is stable, and a comparison result
  \<open>NaN\<close> counts as 0. It is modelled as the stable insertion sort; when the comparison
  function is not a consistent order (which needs an invalid time stamp here) the
  language leaves the resulting order to the implementation, and the model fixes this one.
\<close>

definition num_sub :: "int option \<Rightarrow> int option \<Rightarrow> int option" where
  "num_sub a b =
     (case a of None \<Rightarrow> None | Some x \<Rightarrow> (case b of None \<Rightarrow> None | Some y \<Rightarrow> Some (x - y)))"

definition cmp_negative :: "int option \<Rightarrow> bool" where
  "cmp_negative v = (case v of None \<Rightarrow> False | Some n \<Rightarrow> n < 0)"

fun sort_insert :: "('a \<Rightarrow> 'a \<Rightarrow> int option) \<Rightarrow> 'a \<Rightarrow> 'a list \<Rightarrow> 'a list" where
  "sort_insert cmp x [] = [x]"
| "sort_insert cmp x (y # ys) =
     (if cmp_negative (cmp x y) then x # y # ys else y # sort_insert cmp x ys)"

definition js_sort :: "('a \<Rightarrow> 'a \<Rightarrow> int option) \<Rightarrow> 'a list \<Rightarrow> 'a list" where
  "js_sort cmp xs = foldl (\<lambda>acc x. sort_insert cmp x acc) [] xs"

text \<open>The month key \<open>`${year}-${month}`\<close> of a date, as both branches of the function build it.\<close>

definition date_month_key :: "js_date \<Rightarrow> int option \<Rightarrow> string" where
  "date_month_key env d =
     (let year = map_option (date_getFullYear env) d;
          month = padStart 2 CHR ''0''
                    (num_toString (num_add (map_option (date_getMonth env) d) 1))
      in num_toString year @ ''-'' @ month)"

definition getFirstTrackedMonth :: "js_date \<Rightarrow> transaction list \<Rightarrow> string" where
  "getFirstTrackedMonth env transactions =
     (let currentDate = Some (date_now env)
      in if transactions = [] then date_month_key env currentDate
         else
           (let sortedTransactions =
                  js_sort (\<lambda>a b. num_sub (date_parse env (timestamp a))
                                          (date_parse env (timestamp b)))
                          transactions
            in case sortedTransactions of
                 [] \<Rightarrow> date_month_key env currentDate
               | firstTransaction # _ \<Rightarrow>
                   date_month_key env (date_parse env (timestamp firstTransaction))))"

section \<open>Double arithmetic\<close>











section \<open>Reference definitions of the specification\<close>

text \<open>
  The specification's \<open>totalForMonth\<close>: the sum of the withdrawals minus the sum of the
  deposits of a list of transactions.
\<close>

definition withdraw_sum :: "transaction list \<Rightarrow> real" where
  "withdraw_sum txs = sum_list (map amount (filter (\<lambda>t. tx_type t = Withdraw) txs))"

definition deposit_sum :: "transaction list \<Rightarrow> real" where
  "deposit_sum txs = sum_list (map amount (filter (\<lambda>t. tx_type t = Deposit) txs))"

text \<open>
  The specification's \<open>rolloverCarryIn\<close>, in its words: the budgets are looked up by month
  key; with no record for the previous month the carry-in is 0; otherwise it is the
  record's amount, plus the carry-in of the previous month when that record has rollover
  enabled, minus the previous month's total.
\<close>

partial_function (option) rolloverCarryIn_spec ::
    "js_date \<Rightarrow> transaction list \<Rightarrow> monthly_budget list \<Rightarrow> string \<Rightarrow> (js_error + real) option" where
  "rolloverCarryIn_spec env transactions budgets monthKey =
     (let prev = getPreviousMonth monthKey
      in case map_of (map (\<lambda>b. (month_year b, b)) budgets) prev of
           None \<Rightarrow> Some (Inr 0)
         | Some prevBudget \<Rightarrow>
             Option.bind
               (if rollover_enabled prevBudget
                then rolloverCarryIn_spec env transactions budgets prev
                else Some (Inr 0))
               (\<lambda>inner.
                  Some (case inner of
                          Inl e \<Rightarrow> Inl e
                        | Inr innerCarry \<Rightarrow>
                            (case calculateTotalForMonth env transactions prev of
                               Inl e \<Rightarrow> Inl e
                             | Inr totalSpend \<Rightarrow>
                                 Inr (budget_amount prevBudget + innerCarry - totalSpend)))))"

declare rolloverCarryIn_spec.simps [code]

section \<open>Recursion depth\<close>

text \<open>
  \<open>calculateRolloverAmount\<close> with a bound on the number of nested calls: the body is the
  one above, every call uses up one unit of the bound, and the result is \<open>None\<close> when a
  call is made with nothing left. The recursion depth of a call is the number of nested
  recursive calls it makes, so a call of depth \<open>d\<close> returns under the bound \<open>d + 1\<close> and
  not under the bound \<open>d\<close>.
\<close>

fun calculateRolloverAmount_bounded ::
    "nat \<Rightarrow> js_date \<Rightarrow> transaction list \<Rightarrow> monthly_budget list \<Rightarrow> string
       \<Rightarrow> (js_error + real) option" where
  "calculateRolloverAmount_bounded 0 env transactions budgets currentMonth = None"
| "calculateRolloverAmount_bounded (Suc n) env transactions budgets currentMonth =
     (let previousMonth = getPreviousMonth currentMonth
      in case find (\<lambda>b. month_year b = previousMonth) budgets of
           None \<Rightarrow> Some (Inr 0)
         | Some prevBudget \<Rightarrow>
             Option.bind
               (if rollover_enabled prevBudget
                then calculateRolloverAmount_bounded n env transactions budgets previousMonth
                else Some (Inr 0))
               (\<lambda>inner.
                  Some (case inner of
                          Inl e \<Rightarrow> Inl e
                        | Inr rolloverAmount \<Rightarrow>
                            (case getTransactionsForMonth env transactions previousMonth of
                               Inl e \<Rightarrow> Inl e
                             | Inr prevMonthTransactions \<Rightarrow>
                                 let prevMonthSumTransactions =
                                       foldl (\<lambda>total transaction.
                                                case tx_type transaction of
                                                  Withdraw \<Rightarrow> total + amount transaction
                                                | Deposit \<Rightarrow> total - amount transaction)
                                             0 prevMonthTransactions
                                 in Inr (budget_amount prevBudget + rolloverAmount
                                           - prevMonthSumTransactions)))))"

text \<open>A month key has a budget record with rollover enabled.\<close>

definition has_rollover_record :: "monthly_budget list \<Rightarrow> string \<Rightarrow> bool" where
  "has_rollover_record budgets k =
     (case find (\<lambda>b. month_year b = k) budgets of
        None \<Rightarrow> False
      | Some b \<Rightarrow> rollover_enabled b)"

section \<open>A concrete host for the examples\<close>

text \<open>
  The examples run on a device whose time zone is UTC: days are counted in the proleptic
  Gregorian calendar, \<open>new Date(y, m, 1)\<close> maps a year from 0 to 99 to 1900 + y and carries
  a month outside 0..11 into the year, and time stamps of the form
  \<open>YYYY-MM-DDTHH:MM:SS.sssZ\<close> are parsed. The clock reads 2025-11-03T00:00:00Z.
\<close>

definition days_from_civil :: "int \<Rightarrow> int \<Rightarrow> int \<Rightarrow> int" where
  "days_from_civil y m d =
     (let y1 = (if m \<le> 2 then y - 1 else y);
          era = y1 div 400;
          yoe = y1 - era * 400;
          doy = (153 * (if 2 < m then m - 3 else m + 9) + 2) div 5 + d - 1;
          doe = yoe * 365 + yoe div 4 - yoe div 100 + doy
      in era * 146097 + doe - 719468)"

definition civil_from_days :: "int \<Rightarrow> int \<times> int \<times> int" where
  "civil_from_days z =
     (let z1 = z + 719468;
          era = z1 div 146097;
          doe = z1 - era * 146097;
          yoe = (doe - doe div 1460 + doe div 36524 - doe div 146096) div 365;
          doy = doe - (365 * yoe + yoe div 4 - yoe div 100);
          mp = (5 * doy + 2) div 153;
          d = doy - (153 * mp + 2) div 5 + 1;
          m = (if mp < 10 then mp + 3 else mp - 9);
          y = yoe + era * 400
      in (if m \<le> 2 then y + 1 else y, m, d))"

definition utc_date_local :: "int \<Rightarrow> int \<Rightarrow> int" where
  "utc_date_local y m =
     (let yr = (if 0 \<le> y \<and> y \<le> 99 then 1900 + y else y);
          ym = yr * 12 + m
      in 86400000 * days_from_civil (ym div 12) (ym mod 12 + 1) 1)"

definition field_value :: "nat \<Rightarrow> nat \<Rightarrow> string \<Rightarrow> int" where
  "field_value i n s = int (radix_value 10 digit_val (take n (drop i s)))"

definition utc_parse :: "string \<Rightarrow> int option" where
  "utc_parse s =
     (let y = field_value 0 4 s; mo = field_value 5 2 s; d = field_value 8 2 s;
          h = field_value 11 2 s; mi = field_value 14 2 s; sec = field_value 17 2 s;
          ms = field_value 20 3 s;
          days = days_from_civil y mo d
      in if length s = 24
            \<and> list_all is_digit (take 4 s @ take 2 (drop 5 s) @ take 2 (drop 8 s)
                                   @ take 2 (drop 11 s) @ take 2 (drop 14 s)
                                   @ take 2 (drop 17 s) @ take 3 (drop 20 s))
            \<and> [s ! 4, s ! 7, s ! 10, s ! 13, s ! 16, s ! 19, s ! 23] = ''--T::.Z''
            \<and> civil_from_days days = (y, mo, d) \<and> h \<le> 23 \<and> mi \<le> 59 \<and> sec \<le> 59
         then Some (86400000 * days + 3600000 * h + 60000 * mi + 1000 * sec + ms)
         else None)"

definition utc_toISOString :: "int \<Rightarrow> string" where
  "utc_toISOString t =
     (let (y, mo, d) = civil_from_days (t div 86400000);
          r = t mod 86400000;
          p = (\<lambda>n v. padStart n CHR ''0'' (num_toString (Some v)))
      in p 4 y @ ''-'' @ p 2 mo @ ''-'' @ p 2 d @ ''T'' @ p 2 (r div 3600000) @ '':''
         @ p 2 (r mod 3600000 div 60000) @ '':'' @ p 2 (r mod 60000 div 1000) @ ''.''
         @ p 3 (r mod 1000) @ ''Z'')"

definition utc_getFullYear :: "int \<Rightarrow> int" where
  "utc_getFullYear t = fst (civil_from_days (t div 86400000))"

definition utc_getMonth :: "int \<Rightarrow> int" where
  "utc_getMonth t = fst (snd (civil_from_days (t div 86400000))) - 1"

definition utc_host :: js_date where
  "utc_host =
     \<lparr>date_now = 1762128000000,
      date_parse = utc_parse,
      date_local = utc_date_local,
      date_getFullYear = utc_getFullYear,
      date_getMonth = utc_getMonth,
      date_toISOString = utc_toISOString\<rparr>"

text \<open>Records for the examples.\<close>

definition sample_tx :: "int \<Rightarrow> real \<Rightarrow> transaction_type \<Rightarrow> string \<Rightarrow> transaction" where
  "sample_tx i a ty ts =
     \<lparr>tx_id = i, device_id = ''phone'', tx_name = ''item'', amount = a, tx_type = ty,
      timestamp = ts, tx_created_at = ts, tx_updated_at = ts, username = None\<rparr>"

definition sample_budget :: "int \<Rightarrow> string \<Rightarrow> real \<Rightarrow> bool \<Rightarrow> monthly_budget" where
  "sample_budget i k a r =
     \<lparr>budget_id = i, month_year = k, budget_amount = a, rollover_enabled = r,
      created_at = ''2025-09-01T00:00:00.000Z'', updated_at = ''2025-09-01T00:00:00.000Z''\<rparr>"

section \<open>Auxiliary notions for the proofs\<close>

abbreviation dec_value :: "string \<Rightarrow> nat" where
  "dec_value \<equiv> radix_value 10 digit_val"

definition pad2 :: "nat \<Rightarrow> string" where
  "pad2 n = padStart 2 CHR ''0'' (nat_digits n)"

text \<open>The year part and the month part of a well-formed key.\<close>

definition key_parts :: "string \<Rightarrow> string \<Rightarrow> bool" where
  "key_parts y m =
     (length y = 4 \<and> length m = 2 \<and> list_all is_digit y \<and> list_all is_digit m \<and>
      1 \<le> dec_value m \<and> dec_value m \<le> 12)"


text \<open>
  A transaction falls in the month of a well-formed key: its time stamp is a valid date
  in the half-open interval from the first instant of the month to the first instant of
  the next month, both taken in the device's time zone.
\<close>

definition in_month :: "js_date \<Rightarrow> string \<Rightarrow> transaction \<Rightarrow> bool" where
  "in_month env k t =
     (case date_parse env (timestamp t) of
        None \<Rightarrow> False
      | Some x \<Rightarrow>
          date_local env (int (key_year k)) (int (key_month k) - 1) \<le> x
          \<and> x < date_local env (int (key_year k)) (int (key_month k)))"

text \<open>
  Exactly \<open>d\<close> consecutive months before \<open>m\<close> have a budget record with rollover
  enabled: the first \<open>d\<close> keys reached from \<open>m\<close> by \<open>getPreviousMonth\<close> have one, and
  the next key has none.
\<close>

fun rollover_chain :: "monthly_budget list \<Rightarrow> string \<Rightarrow> nat \<Rightarrow> bool" where
  "rollover_chain bs m 0 = (\<not> has_rollover_record bs (getPreviousMonth m))"
| "rollover_chain bs m (Suc d) =
     (has_rollover_record bs (getPreviousMonth m) \<and> rollover_chain bs (getPreviousMonth m) d)"

text \<open>
  The calendar month before the month of a well-formed key, as a zero-padded key: the
  month before \<open>1000-01\<close> is \<open>0999-12\<close>, and no month of the keys comes before \<open>0000-01\<close>.
\<close>

definition pad4 :: "nat \<Rightarrow> string" where
  "pad4 n = padStart 4 CHR ''0'' (nat_digits n)"

definition month_before :: "string \<Rightarrow> string option" where
  "month_before k =
     (if key_month k = 1
      then (if key_year k = 0 then None else Some (pad4 (key_year k - 1) @ ''-12''))
      else Some (take 4 k @ ''-'' @ pad2 (key_month k - 1)))"

text \<open>
  Exactly \<open>d\<close> consecutive calendar months before \<open>m\<close> have a budget record with rollover
  enabled.
\<close>

fun preceding_chain :: "monthly_budget list \<Rightarrow> string \<Rightarrow> nat \<Rightarrow> bool" where
  "preceding_chain bs m 0 =
     (case month_before m of None \<Rightarrow> True | Some p \<Rightarrow> \<not> has_rollover_record bs p)"
| "preceding_chain bs m (Suc d) =
     (case month_before m of
        None \<Rightarrow> False
      | Some p \<Rightarrow> has_rollover_record bs p \<and> preceding_chain bs p d)"

section \<open>Digits, decimal strings and their order\<close>

lemma of_char_digit_bounds: "is_digit c \<longleftrightarrow> 48 \<le> (of_char c :: nat) \<and> (of_char c :: nat) \<le> 57"
  by (simp add: is_digit_def less_eq_char_def)

lemma digit_val_digit_char: "n < 10 \<Longrightarrow> digit_val (digit_char n) = n"
  by (simp add: digit_val_def digit_char_def)

lemma is_digit_digit_char: "n < 10 \<Longrightarrow> is_digit (digit_char n)"
  by (simp add: of_char_digit_bounds digit_char_def)

lemma digit_char_digit_val: "is_digit c \<Longrightarrow> digit_char (digit_val c) = c"
  by (simp add: of_char_digit_bounds digit_val_def digit_char_def)

lemma digit_val_less: "is_digit c \<Longrightarrow> digit_val c < 10"
  by (auto simp add: of_char_digit_bounds digit_val_def)

lemma digit_char_less: "a < 10 \<Longrightarrow> b < 10 \<Longrightarrow> digit_char a < digit_char b \<longleftrightarrow> a < b"
  by (simp add: digit_char_def less_char_def)

lemma digit_val_mono: "is_digit c \<Longrightarrow> is_digit d \<Longrightarrow> c < d \<longleftrightarrow> digit_val c < digit_val d"
  by (auto simp add: of_char_digit_bounds digit_val_def less_char_def)

lemma digit_val_inj: "is_digit c \<Longrightarrow> is_digit d \<Longrightarrow> digit_val c = digit_val d \<Longrightarrow> c = d"
  by (metis digit_char_digit_val)

lemma digit_not_dash: "is_digit c \<Longrightarrow> c \<noteq> CHR ''-''"
  by (auto simp add: of_char_digit_bounds)

lemma digit_not_space: "is_digit c \<Longrightarrow> \<not> is_js_space c"
  by (auto simp add: of_char_digit_bounds is_js_space_def)

lemma digit_not_plus: "is_digit c \<Longrightarrow> c \<noteq> CHR ''+''"
  by (auto simp add: of_char_digit_bounds)

lemma digit_not_x: "is_digit c \<Longrightarrow> c \<noteq> CHR ''x'' \<and> c \<noteq> CHR ''X''"
  by (auto simp add: of_char_digit_bounds)

lemma split_on_no_sep: "sep \<notin> set s \<Longrightarrow> split_on sep s = [s]"
  by (induction s) auto

lemma split_on_first: "sep \<notin> set y \<Longrightarrow> split_on sep (y @ sep # r) = y # split_on sep r"
  by (induction y) auto

lemma digits_no_dash: "list_all is_digit s \<Longrightarrow> CHR ''-'' \<notin> set s"
  by (induction s) (auto dest: digit_not_dash)

lemma split_key:
  "list_all is_digit y \<Longrightarrow> list_all is_digit m \<Longrightarrow>
   destructure2 (split_on CHR ''-'' (y @ CHR ''-'' # m)) = (Some y, Some m)"
  by (simp add: split_on_first split_on_no_sep digits_no_dash destructure2_def)

lemma takeWhile_all: "list_all P s \<Longrightarrow> takeWhile P s = s"
  by (induction s) auto

lemma parseInt_digits:
  assumes "s \<noteq> []" "list_all is_digit s"
  shows "parseInt_str s = Some (int (radix_value 10 digit_val s))"
proof -
  obtain c r where s: "s = c # r" using assms(1) by (cases s) auto
  have c: "is_digit c" and r: "list_all is_digit r" using assms(2) s by auto
  have dw: "dropWhile is_js_space s = s" using c s by (simp add: digit_not_space)
  have nohex: "(case s of a # b # _ \<Rightarrow> a = CHR ''0'' \<and> (b = CHR ''x'' \<or> b = CHR ''X'') | _ \<Rightarrow> False) = False"
    using r s by (cases r) (auto simp: digit_not_x)
  show ?thesis
    unfolding parseInt_str_def dw Let_def
    using c nohex assms
    by (simp add: s digit_not_dash digit_not_plus takeWhile_all)
qed

lemma dec_value_Nil: "dec_value [] = 0"
  by (simp add: radix_value_def)

lemma dec_value_snoc: "dec_value (s @ [c]) = 10 * dec_value s + digit_val c"
  by (simp add: radix_value_def)

lemma foldl_dec_acc:
  "foldl (\<lambda>acc c. 10 * acc + digit_val c) a s
     = a * 10 ^ length s + foldl (\<lambda>acc c. 10 * acc + digit_val c) 0 s"
proof (induction s arbitrary: a)
  case Nil
  show ?case by simp
next
  case (Cons c s)
  have "foldl (\<lambda>acc c. 10 * acc + digit_val c) a (c # s)
          = foldl (\<lambda>acc c. 10 * acc + digit_val c) (10 * a + digit_val c) s" by simp
  also have "\<dots> = (10 * a + digit_val c) * 10 ^ length s
                     + foldl (\<lambda>acc c. 10 * acc + digit_val c) 0 s"
    by (rule Cons.IH)
  also have "foldl (\<lambda>acc c. 10 * acc + digit_val c) 0 (c # s)
               = digit_val c * 10 ^ length s + foldl (\<lambda>acc c. 10 * acc + digit_val c) 0 s"
    using Cons.IH [of "digit_val c"] by simp
  ultimately show ?case by (simp add: algebra_simps)
qed

lemma dec_value_Cons: "dec_value (c # s) = digit_val c * 10 ^ length s + dec_value s"
  using foldl_dec_acc [of "digit_val c" s] by (simp add: radix_value_def)

lemma dec_value_bound: "list_all is_digit s \<Longrightarrow> dec_value s < 10 ^ length s"
proof (induction s)
  case Nil
  show ?case by (simp add: dec_value_Nil)
next
  case (Cons c s)
  define P :: nat where "P = 10 ^ length s"
  have "digit_val c \<le> 9" using Cons.prems digit_val_less [of c] by simp
  then have a: "digit_val c * P \<le> 9 * P" by simp
  have b: "dec_value s < P" using Cons by (simp add: P_def)
  have "digit_val c * P + dec_value s < 10 * P" using a b by linarith
  then show ?case by (simp add: dec_value_Cons P_def)
qed

lemma nat_digits_small: "n < 10 \<Longrightarrow> nat_digits n = [digit_char n]"
  by (simp add: nat_digits.simps)

lemma nat_digits_step: "10 \<le> n \<Longrightarrow> nat_digits n = nat_digits (n div 10) @ [digit_char (n mod 10)]"
  by (subst nat_digits.simps) simp

lemma nat_digits_all_digits: "list_all is_digit (nat_digits n)"
proof (induction n rule: nat_digits.induct)
  case (1 n)
  show ?case
  proof (cases "n < 10")
    case True
    then show ?thesis by (simp add: nat_digits_small is_digit_digit_char)
  next
    case False
    then show ?thesis using 1 by (simp add: nat_digits_step is_digit_digit_char)
  qed
qed

lemma nat_digits_nonempty: "nat_digits n \<noteq> []"
  by (subst nat_digits.simps) simp

lemma dec_value_nat_digits: "dec_value (nat_digits n) = n"
proof (induction n rule: nat_digits.induct)
  case (1 n)
  show ?case
  proof (cases "n < 10")
    case True
    then show ?thesis
      using dec_value_snoc [of "[]" "digit_char n"]
      by (simp add: nat_digits_small dec_value_Nil digit_val_digit_char)
  next
    case False
    then show ?thesis using 1
      by (simp add: nat_digits_step dec_value_snoc digit_val_digit_char)
  qed
qed

lemma length_nat_digits_le: "n < 10 ^ k \<Longrightarrow> 0 < k \<Longrightarrow> length (nat_digits n) \<le> k"
proof (induction n arbitrary: k rule: nat_digits.induct)
  case (1 n)
  show ?case
  proof (cases "n < 10")
    case True
    then show ?thesis using "1.prems" by (simp add: nat_digits_small)
  next
    case False
    then obtain j where k: "k = Suc j" using "1.prems" by (cases k) auto
    have "0 < j" using False "1.prems" k by (cases j) auto
    moreover have "n div 10 < 10 ^ j" using "1.prems" k by (simp add: less_mult_imp_div_less)
    ultimately have "length (nat_digits (n div 10)) \<le> j" using 1 False by simp
    then show ?thesis using False k by (simp add: nat_digits_step)
  qed
qed

lemma length_nat_digits_ge: "10 ^ k \<le> n \<Longrightarrow> k < length (nat_digits n)"
proof (induction n arbitrary: k rule: nat_digits.induct)
  case (1 n)
  show ?case
  proof (cases k)
    case 0
    then show ?thesis using nat_digits_nonempty [of n] by (cases "nat_digits n") auto
  next
    case (Suc j)
    have "(1::nat) \<le> 10 ^ j" by simp
    then have a: "(10::nat) \<le> 10 * 10 ^ j" by linarith
    have b: "(10::nat) * 10 ^ j \<le> n" using "1.prems" Suc by simp
    have n: "\<not> n < 10" using a b by linarith
    have p: "(10::nat) ^ j * 10 \<le> n" using "1.prems" Suc by (simp add: mult.commute)
    have "(10::nat) ^ j \<le> n div 10"
      using p by (simp add: less_eq_div_iff_mult_less_eq)
    then have "j < length (nat_digits (n div 10))" using 1 n by simp
    then show ?thesis using n Suc by (simp add: nat_digits_step)
  qed
qed

lemma length_nat_digits_4: "1000 \<le> n \<Longrightarrow> n < 10000 \<Longrightarrow> length (nat_digits n) = 4"
  using length_nat_digits_le [of n 4] length_nat_digits_ge [of 3 n] by simp

lemma nat_digits_dec_value:
  "list_all is_digit s \<Longrightarrow> s \<noteq> [] \<Longrightarrow> 10 ^ (length s - 1) \<le> dec_value s \<Longrightarrow> nat_digits (dec_value s) = s"
proof (induction s rule: rev_induct)
  case Nil
  then show ?case by simp
next
  case (snoc c s)
  have c: "is_digit c" and s: "list_all is_digit s" using snoc.prems by auto
  show ?case
  proof (cases "s = []")
    case True
    then show ?thesis
      using c dec_value_snoc [of "[]" c]
      by (simp add: dec_value_Nil nat_digits_small digit_val_less digit_char_digit_val)
  next
    case False
    then obtain j where j: "length s = Suc j" by (cases s) auto
    have "10 * 10 ^ j \<le> 10 * dec_value s + digit_val c"
      using snoc.prems(3) j by (simp add: dec_value_snoc)
    then have "10 ^ j \<le> dec_value s" using digit_val_less [OF c] by simp
    then have ih: "nat_digits (dec_value s) = s" using snoc.IH s False j by simp
    have pos: "0 < dec_value s" using \<open>10 ^ j \<le> dec_value s\<close>
      by (metis less_le_trans zero_less_numeral zero_less_power)
    have ge: "10 \<le> 10 * dec_value s + digit_val c" using pos by simp
    have d: "(10 * dec_value s + digit_val c) div 10 = dec_value s"
      using digit_val_less [OF c] by simp
    have m: "(10 * dec_value s + digit_val c) mod 10 = digit_val c"
      using digit_val_less [OF c] by simp
    show ?thesis
      using ge ih c digit_val_less [OF c]
      by (simp add: dec_value_snoc nat_digits_step d digit_char_digit_val)
  qed
qed

lemma pad2_small: "n < 10 \<Longrightarrow> pad2 n = [CHR ''0'', digit_char n]"
  by (simp add: pad2_def padStart_def nat_digits_small)

lemma pad2_big: "10 \<le> n \<Longrightarrow> n < 100 \<Longrightarrow> pad2 n = [digit_char (n div 10), digit_char (n mod 10)]"
  by (simp add: pad2_def padStart_def nat_digits_step nat_digits_small)

lemma is_digit_zero: "is_digit CHR ''0''"
  by (simp add: is_digit_def)

lemma digit_val_zero: "digit_val CHR ''0'' = 0"
  by (simp add: digit_val_def)

lemma pad2_props:
  assumes "n < 100"
  shows "length (pad2 n) = 2" "list_all is_digit (pad2 n)" "dec_value (pad2 n) = n"
proof -
  show "length (pad2 n) = 2" using assms by (cases "n < 10") (simp_all add: pad2_small pad2_big)
  show "list_all is_digit (pad2 n)"
    using assms by (cases "n < 10") (simp_all add: pad2_small pad2_big is_digit_zero is_digit_digit_char)
  show "dec_value (pad2 n) = n"
  proof (cases "n < 10")
    case True
    then show ?thesis
      by (simp add: pad2_small dec_value_Cons dec_value_Nil digit_val_zero digit_val_digit_char)
  next
    case False
    then show ?thesis using assms
      by (simp add: pad2_big dec_value_Cons dec_value_Nil digit_val_digit_char)
  qed
qed

lemma pad2_dec_value:
  assumes "length m = 2" "list_all is_digit m"
  shows "pad2 (dec_value m) = m"
proof -
  obtain e f where m: "m = [e, f]" using assms(1)
    by (cases m; cases "tl m"; cases "tl (tl m)") auto
  have e: "is_digit e" and f: "is_digit f" using assms(2) m by auto
  have v: "dec_value m = digit_val e * 10 + digit_val f"
    by (simp add: m dec_value_Cons dec_value_Nil)
  show ?thesis
  proof (cases "digit_val e = 0")
    case True
    then have "e = CHR ''0''" using e by (metis digit_char_digit_val digit_val_zero is_digit_zero)
    moreover have "dec_value m = digit_val f" using v True by simp
    moreover have "pad2 (digit_val f) = [CHR ''0'', digit_char (digit_val f)]"
      using digit_val_less [OF f] by (rule pad2_small)
    ultimately show ?thesis using f by (simp add: digit_char_digit_val m)
  next
    case False
    then have "10 \<le> dec_value m" by (simp add: v)
    moreover have "dec_value m < 100" using digit_val_less [OF e] digit_val_less [OF f] v by simp
    moreover have "dec_value m div 10 = digit_val e" using digit_val_less [OF f] v by simp
    moreover have "dec_value m mod 10 = digit_val f" using digit_val_less [OF f] v by simp
    ultimately show ?thesis using e f by (simp add: pad2_big digit_char_digit_val m)
  qed
qed

lemma append_less_same: "(xs @ ys < xs @ zs) = (ys < (zs :: 'a::linorder list))"
  by (induction xs) simp_all

lemma same_len_less_append:
  "length u = length v \<Longrightarrow> u < v \<Longrightarrow> u @ s < v @ (t :: 'a::linorder list)"
  by (induction u v rule: list_induct2) auto

lemma lex_digits:
  "length u = length v \<Longrightarrow> list_all is_digit u \<Longrightarrow> list_all is_digit v \<Longrightarrow>
   (u < v) = (dec_value u < dec_value v)"
proof (induction u v rule: list_induct2)
  case Nil
  show ?case by (simp add: dec_value_Nil)
next
  case (Cons c u d v)
  have c: "is_digit c" and d: "is_digit d" and u: "list_all is_digit u" and v: "list_all is_digit v"
    using Cons.prems by auto
  define P :: nat where "P = 10 ^ length v"
  have bu: "dec_value u < P" using dec_value_bound [OF u] Cons.hyps by (simp add: P_def)
  have bv: "dec_value v < P" using dec_value_bound [OF v] by (simp add: P_def)
  have ih: "(u < v) = (dec_value u < dec_value v)" using Cons.IH u v by simp
  have vals: "dec_value (c # u) = digit_val c * P + dec_value u"
             "dec_value (d # v) = digit_val d * P + dec_value v"
    using Cons.hyps by (simp_all add: dec_value_Cons P_def)
  consider "digit_val c < digit_val d" | "digit_val c = digit_val d" | "digit_val d < digit_val c"
    by linarith
  then show ?case
  proof cases
    case 1
    then have "Suc (digit_val c) \<le> digit_val d" by simp
    then have "Suc (digit_val c) * P \<le> digit_val d * P" by (rule mult_le_mono1)
    then have "digit_val c * P + dec_value u < digit_val d * P + dec_value v" using bu by simp
    moreover have "c < d" using 1 c d by (simp add: digit_val_mono)
    ultimately show ?thesis by (simp add: vals)
  next
    case 2
    then have cd: "c = d" using c d by (rule_tac digit_val_inj)
    have "(dec_value (c # u) < dec_value (d # v)) = (dec_value u < dec_value v)"
      using 2 by (simp add: vals)
    moreover have "(c # u < d # v) = (u < v)" using cd by simp
    ultimately show ?thesis using ih by simp
  next
    case 3
    then have "Suc (digit_val d) \<le> digit_val c" by simp
    then have "Suc (digit_val d) * P \<le> digit_val c * P" by (rule mult_le_mono1)
    then have "digit_val d * P + dec_value v < digit_val c * P + dec_value u" using bv by simp
    moreover have "d < c" using 3 c d by (simp add: digit_val_mono)
    ultimately show ?thesis by (auto simp add: vals)
  qed
qed

lemma getPreviousMonth_digits:
  assumes "y \<noteq> []" "list_all is_digit y" "m \<noteq> []" "list_all is_digit m"
  shows "getPreviousMonth (y @ CHR ''-'' # m) =
           (if dec_value m = 1 then num_toString (Some (int (dec_value y) - 1)) @ ''-12''
            else y @ ''-'' @ padStart 2 CHR ''0'' (num_toString (Some (int (dec_value m) - 1))))"
  using assms
  by (simp add: getPreviousMonth_def split_key parseInt_def parseInt_digits num_add_def
      template_str_def)

lemma getNextMonth_digits:
  assumes "y \<noteq> []" "list_all is_digit y" "m \<noteq> []" "list_all is_digit m"
  shows "getNextMonth (y @ CHR ''-'' # m) =
           (if dec_value m = 12 then num_toString (Some (int (dec_value y) + 1)) @ ''-01''
            else y @ ''-'' @ padStart 2 CHR ''0'' (num_toString (Some (int (dec_value m) + 1))))"
  using assms
  by (simp add: getNextMonth_def split_key parseInt_def parseInt_digits num_add_def
      template_str_def)

lemma num_toString_nat: "num_toString (Some (int n)) = nat_digits n"
  by (simp add: num_toString_def)

lemma key_partsD:
  assumes "key_parts y m"
  shows "length y = 4" "length m = 2" "list_all is_digit y" "list_all is_digit m"
        "1 \<le> dec_value m" "dec_value m \<le> 12" "y \<noteq> []" "m \<noteq> []"
  using assms by (auto simp: key_parts_def)

lemma key_parts_year [simp]: "key_parts y m \<Longrightarrow> key_year (y @ CHR ''-'' # m) = dec_value y"
  by (simp add: key_year_def key_parts_def)

lemma key_parts_month [simp]: "key_parts y m \<Longrightarrow> key_month (y @ CHR ''-'' # m) = dec_value m"
  by (simp add: key_month_def key_parts_def)

lemma key_parts_wf: "key_parts y m \<Longrightarrow> wf_month_key (y @ CHR ''-'' # m)"
  by (simp add: wf_month_key_def key_month_def key_parts_def)

lemma wf_month_keyE:
  assumes "wf_month_key k"
  obtains y m where "k = y @ CHR ''-'' # m" "key_parts y m"
proof -
  have len: "length k = 7" using assms by (simp add: wf_month_key_def)
  have d: "take 1 (drop 4 k) = ''-''" using assms by (simp add: wf_month_key_def)
  have "drop 4 k = take 1 (drop 4 k) @ drop 1 (drop 4 k)"
    by (rule append_take_drop_id [symmetric])
  also have "drop 1 (drop 4 k) = drop 5 k" by simp
  finally have "drop 4 k = CHR ''-'' # drop 5 k" using d by simp
  then have "take 4 k @ drop 4 k = take 4 k @ CHR ''-'' # drop 5 k" by simp
  then have k: "k = take 4 k @ CHR ''-'' # drop 5 k" by simp
  have "key_parts (take 4 k) (drop 5 k)"
    using assms len by (simp add: wf_month_key_def key_parts_def key_month_def)
  then show ?thesis using k that by blast
qed

lemma key_parts_pad2:
  "key_parts y m \<Longrightarrow> 1 \<le> n \<Longrightarrow> n \<le> 12 \<Longrightarrow> key_parts y (pad2 n)"
  using pad2_props [of n] by (simp add: key_parts_def)

lemma key_parts_year_bound: "key_parts y m \<Longrightarrow> dec_value y < 10000"
  using dec_value_bound [of y] by (simp add: key_parts_def)

lemma key_parts_nat_digits:
  "key_parts y m \<Longrightarrow> 1000 \<le> v \<Longrightarrow> v < 10000 \<Longrightarrow> key_parts (nat_digits v) m"
  by (simp add: key_parts_def length_nat_digits_4 nat_digits_all_digits)

lemma prev_parts:
  assumes kp: "key_parts y m"
  shows "getPreviousMonth (y @ CHR ''-'' # m) =
           (if dec_value m = 1 then num_toString (Some (int (dec_value y) - 1)) @ ''-12''
            else y @ CHR ''-'' # pad2 (dec_value m - 1))"
proof -
  have "int (dec_value m) - 1 = int (dec_value m - 1)"
    using key_partsD(5) [OF kp] by simp
  then have e: "num_toString (Some (int (dec_value m) - 1)) = nat_digits (dec_value m - 1)"
    by (simp only: num_toString_nat)
  show ?thesis
    using getPreviousMonth_digits [OF key_partsD(7) [OF kp] key_partsD(3) [OF kp]
        key_partsD(8) [OF kp] key_partsD(4) [OF kp]]
    by (simp add: e pad2_def)
qed

lemma next_parts:
  assumes kp: "key_parts y m"
  shows "getNextMonth (y @ CHR ''-'' # m) =
           (if dec_value m = 12 then nat_digits (dec_value y + 1) @ ''-01''
            else y @ CHR ''-'' # pad2 (dec_value m + 1))"
proof -
  have a: "int (dec_value m) + 1 = int (dec_value m + 1)" by simp
  have b: "int (dec_value y) + 1 = int (dec_value y + 1)" by simp
  show ?thesis
    using getNextMonth_digits [OF key_partsD(7) [OF kp] key_partsD(3) [OF kp]
        key_partsD(8) [OF kp] key_partsD(4) [OF kp]]
    unfolding a b num_toString_nat pad2_def by simp
qed

lemma twelve_parts: "length ''12'' = 2" "list_all is_digit ''12''" "dec_value ''12'' = 12"
  by (simp_all add: is_digit_def dec_value_Cons dec_value_Nil digit_val_def)

lemma one_parts: "length ''01'' = 2" "list_all is_digit ''01''" "dec_value ''01'' = 1"
  by (simp_all add: is_digit_def dec_value_Cons dec_value_Nil digit_val_def)

lemma key_parts_less_month:
  assumes "key_parts y m" "key_parts y m'"
  shows "(y @ CHR ''-'' # m < y @ CHR ''-'' # m') = (dec_value m < dec_value m')"
  using lex_digits [of m m'] assms by (simp add: append_less_same key_parts_def)

lemma key_parts_less_year:
  assumes "key_parts y m" "key_parts y' m'" "dec_value y < dec_value y'"
  shows "y @ CHR ''-'' # m < y' @ CHR ''-'' # m'"
proof -
  have "y < y'" using lex_digits [of y y'] assms by (simp add: key_parts_def)
  then show ?thesis
    using same_len_less_append [of y y' "CHR ''-'' # m" "CHR ''-'' # m'"] assms
    by (simp add: key_parts_def)
qed

lemma pad2_one: "pad2 1 = ''01''"
  by code_simp

lemma pad2_twelve: "pad2 12 = ''12''"
  by code_simp

lemma prev_wf_nonjan:
  assumes wf: "wf_month_key k" and m: "key_month k \<noteq> 1"
  shows "wf_month_key (getPreviousMonth k)"
        "key_year (getPreviousMonth k) = key_year k"
        "key_month (getPreviousMonth k) = key_month k - 1"
        "getPreviousMonth k < k"
        "getNextMonth (getPreviousMonth k) = k"
proof -
  obtain y mo where k: "k = y @ CHR ''-'' # mo" and kp: "key_parts y mo"
    using wf by (rule wf_month_keyE)
  have n: "dec_value mo \<noteq> 1" "1 \<le> dec_value mo" "dec_value mo \<le> 12"
    using m kp k key_partsD(5,6) [OF kp] by simp_all
  have n': "1 \<le> dec_value mo - 1" "dec_value mo - 1 \<le> 12" "dec_value mo - 1 < 100"
    using n by simp_all
  have kp': "key_parts y (pad2 (dec_value mo - 1))"
    using key_parts_pad2 [OF kp n'(1) n'(2)] .
  have p: "getPreviousMonth (y @ CHR ''-'' # mo) = y @ CHR ''-'' # pad2 (dec_value mo - 1)"
    using prev_parts [OF kp] n by simp
  have v: "dec_value (pad2 (dec_value mo - 1)) = dec_value mo - 1"
    using pad2_props(3) [OF n'(3)] .
  show "wf_month_key (getPreviousMonth k)" using key_parts_wf [OF kp'] by (simp add: k p)
  show "key_year (getPreviousMonth k) = key_year k" using kp kp' by (simp add: k p)
  show "key_month (getPreviousMonth k) = key_month k - 1" using kp kp' v by (simp add: k p)
  show "getPreviousMonth k < k"
    using key_parts_less_month [OF kp' kp] v n by (simp add: k p)
  have "dec_value mo - 1 + 1 = dec_value mo" using n by simp
  moreover have "pad2 (dec_value mo) = mo"
    using pad2_dec_value key_partsD(2,4) [OF kp] by simp
  moreover have "dec_value mo - 1 \<noteq> 12" using n by simp
  ultimately show "getNextMonth (getPreviousMonth k) = k"
    using next_parts [OF kp'] v by (simp add: k p)
qed

lemma next_wf_nondec:
  assumes wf: "wf_month_key k" and m: "key_month k \<noteq> 12"
  shows "wf_month_key (getNextMonth k)"
        "key_year (getNextMonth k) = key_year k"
        "key_month (getNextMonth k) = key_month k + 1"
        "k < getNextMonth k"
        "getPreviousMonth (getNextMonth k) = k"
proof -
  obtain y mo where k: "k = y @ CHR ''-'' # mo" and kp: "key_parts y mo"
    using wf by (rule wf_month_keyE)
  have n: "dec_value mo \<noteq> 12" "1 \<le> dec_value mo" "dec_value mo \<le> 12"
    using m kp k key_partsD(5,6) [OF kp] by simp_all
  have n': "1 \<le> dec_value mo + 1" "dec_value mo + 1 \<le> 12" "dec_value mo + 1 < 100"
    using n by simp_all
  have kp': "key_parts y (pad2 (dec_value mo + 1))"
    using key_parts_pad2 [OF kp n'(1) n'(2)] .
  have p: "getNextMonth (y @ CHR ''-'' # mo) = y @ CHR ''-'' # pad2 (dec_value mo + 1)"
    using next_parts [OF kp] n by simp
  have v: "dec_value (pad2 (dec_value mo + 1)) = dec_value mo + 1"
    using pad2_props(3) [OF n'(3)] .
  show "wf_month_key (getNextMonth k)" using key_parts_wf [OF kp'] by (simp add: k p)
  show "key_year (getNextMonth k) = key_year k" using kp kp' by (simp add: k p)
  show "key_month (getNextMonth k) = key_month k + 1" using kp kp' v by (simp add: k p)
  show "k < getNextMonth k"
    using key_parts_less_month [OF kp kp'] v n by (simp add: k p)
  have "pad2 (dec_value mo) = mo"
    using pad2_dec_value key_partsD(2,4) [OF kp] by simp
  then show "getPreviousMonth (getNextMonth k) = k"
    using prev_parts [OF kp'] v n by (simp add: k p)
qed

lemma prev_wf_jan:
  assumes wf: "wf_month_key k" and m: "key_month k = 1" and yr: "1001 \<le> key_year k"
  shows "wf_month_key (getPreviousMonth k)"
        "key_year (getPreviousMonth k) = key_year k - 1"
        "key_month (getPreviousMonth k) = 12"
        "getPreviousMonth k < k"
        "getNextMonth (getPreviousMonth k) = k"
proof -
  obtain y mo where k: "k = y @ CHR ''-'' # mo" and kp: "key_parts y mo"
    using wf by (rule wf_month_keyE)
  have n: "dec_value mo = 1" using m kp k by simp
  have yv: "1001 \<le> dec_value y" "dec_value y < 10000"
    using yr kp k key_parts_year_bound [OF kp] by simp_all
  define y' where "y' = nat_digits (dec_value y - 1)"
  have e: "num_toString (Some (int (dec_value y) - 1)) = y'"
  proof -
    have "int (dec_value y) - 1 = int (dec_value y - 1)" using yv by simp
    then show ?thesis by (simp only: num_toString_nat y'_def)
  qed
  have p: "getPreviousMonth (y @ CHR ''-'' # mo) = y' @ CHR ''-'' # ''12''"
    using prev_parts [OF kp] n by (simp add: e)
  have y': "length y' = 4" "list_all is_digit y'" "dec_value y' = dec_value y - 1"
    using yv by (simp_all add: y'_def length_nat_digits_4 nat_digits_all_digits dec_value_nat_digits)
  have kp': "key_parts y' ''12''"
    using y' twelve_parts by (simp add: key_parts_def)
  show "wf_month_key (getPreviousMonth k)" using key_parts_wf [OF kp'] by (simp add: k p)
  show "key_year (getPreviousMonth k) = key_year k - 1"
    using key_parts_year [OF kp'] key_parts_year [OF kp] y'(3) by (simp only: k p)
  show "key_month (getPreviousMonth k) = 12"
    using key_parts_month [OF kp'] twelve_parts(3) by (simp only: k p)
  have "dec_value y' < dec_value y" using y'(3) yv by simp
  then show "getPreviousMonth k < k"
    using key_parts_less_year [OF kp' kp] by (simp only: k p)
  have "nat_digits (dec_value y) = y"
    using nat_digits_dec_value [of y] key_partsD(1,3,7) [OF kp] yv by simp
  moreover have "dec_value y' + 1 = dec_value y" using y'(3) yv by simp
  moreover have "mo = ''01''"
  proof -
    have "pad2 (dec_value mo) = mo"
      using pad2_dec_value [of mo] key_partsD(2,4) [OF kp] by simp
    then show ?thesis unfolding n pad2_one by simp
  qed
  ultimately have "getNextMonth (y' @ CHR ''-'' # ''12'') = k"
    using next_parts [OF kp'] twelve_parts(3) by (simp add: k)
  then show "getNextMonth (getPreviousMonth k) = k" by (simp only: k p)
qed

lemma next_wf_dec:
  assumes wf: "wf_month_key k" and m: "key_month k = 12"
      and yr: "1000 \<le> key_year k" "key_year k \<le> 9998"
  shows "wf_month_key (getNextMonth k)"
        "key_year (getNextMonth k) = key_year k + 1"
        "key_month (getNextMonth k) = 1"
        "k < getNextMonth k"
        "getPreviousMonth (getNextMonth k) = k"
proof -
  obtain y mo where k: "k = y @ CHR ''-'' # mo" and kp: "key_parts y mo"
    using wf by (rule wf_month_keyE)
  have n: "dec_value mo = 12" using m kp k by simp
  have yv: "1000 \<le> dec_value y" "dec_value y \<le> 9998"
    using yr kp k by simp_all
  define y' where "y' = nat_digits (dec_value y + 1)"
  have p: "getNextMonth (y @ CHR ''-'' # mo) = y' @ CHR ''-'' # ''01''"
    using next_parts [OF kp] n by (simp add: y'_def)
  have y': "length y' = 4" "list_all is_digit y'" "dec_value y' = dec_value y + 1"
    using yv by (simp_all add: y'_def length_nat_digits_4 nat_digits_all_digits dec_value_nat_digits)
  have kp': "key_parts y' ''01''"
    using y' one_parts by (simp add: key_parts_def)
  show "wf_month_key (getNextMonth k)" using key_parts_wf [OF kp'] by (simp add: k p)
  show "key_year (getNextMonth k) = key_year k + 1"
    using key_parts_year [OF kp'] key_parts_year [OF kp] y'(3) by (simp only: k p)
  show "key_month (getNextMonth k) = 1"
    using key_parts_month [OF kp'] one_parts(3) by (simp only: k p)
  have "dec_value y < dec_value y'" using y'(3) by simp
  then show "k < getNextMonth k"
    using key_parts_less_year [OF kp kp'] by (simp only: k p)
  have "nat_digits (dec_value y) = y"
    using nat_digits_dec_value [of y] key_partsD(1,3,7) [OF kp] yv by simp
  then have e: "num_toString (Some (int (dec_value y') - 1)) = y"
    using y'(3) by (simp add: num_toString_nat)
  have "mo = ''12''"
  proof -
    have "pad2 (dec_value mo) = mo"
      using pad2_dec_value [of mo] key_partsD(2,4) [OF kp] by simp
    then show ?thesis unfolding n pad2_twelve by simp
  qed
  then have "getPreviousMonth (y' @ CHR ''-'' # ''01'') = k"
    using prev_parts [OF kp'] one_parts(3) e by (simp add: k)
  then show "getPreviousMonth (getNextMonth k) = k" by (simp only: k p)
qed

lemma prev_jan_small:
  assumes wf: "wf_month_key k" and m: "key_month k = 1" and yr: "key_year k \<le> 1000"
  shows "length (getPreviousMonth k) < 7"
proof -
  obtain y mo where k: "k = y @ CHR ''-'' # mo" and kp: "key_parts y mo"
    using wf by (rule wf_month_keyE)
  have n: "dec_value mo = 1" using m kp k by simp
  have yv: "dec_value y \<le> 1000" using yr kp k by simp
  have p: "getPreviousMonth (y @ CHR ''-'' # mo) = num_toString (Some (int (dec_value y) - 1)) @ ''-12''"
    using prev_parts [OF kp] n by simp
  have "length (num_toString (Some (int (dec_value y) - 1))) \<le> 3"
  proof (cases "dec_value y = 0")
    case True
    then show ?thesis by (simp add: num_toString_def nat_digits_small)
  next
    case False
    then have "int (dec_value y) - 1 = int (dec_value y - 1)" by simp
    then have "num_toString (Some (int (dec_value y) - 1)) = nat_digits (dec_value y - 1)"
      by (simp only: num_toString_nat)
    moreover have "length (nat_digits (dec_value y - 1)) \<le> 3"
      using length_nat_digits_le [of "dec_value y - 1" 3] False yv by simp
    ultimately show ?thesis by simp
  qed
  then show ?thesis by (simp add: k p)
qed

lemma wf_length: "wf_month_key k \<Longrightarrow> length k = 7"
  by (simp add: wf_month_key_def)

lemma prev_wf_index:
  assumes wf: "wf_month_key k" and wfp: "wf_month_key (getPreviousMonth k)"
  shows "month_index (getPreviousMonth k) + 1 = month_index k"
        "getPreviousMonth k < k"
proof -
  have cases: "key_month k \<noteq> 1 \<or> (key_month k = 1 \<and> 1001 \<le> key_year k)"
    using prev_jan_small [OF wf] wf_length [OF wfp] by fastforce
  have m1: "1 \<le> key_month k" using wf by (simp add: wf_month_key_def)
  show "month_index (getPreviousMonth k) + 1 = month_index k"
    using cases
  proof
    assume a: "key_month k \<noteq> 1"
    show ?thesis using prev_wf_nonjan(2,3) [OF wf a] m1 by (simp add: month_index_def)
  next
    assume a: "key_month k = 1 \<and> 1001 \<le> key_year k"
    then have a1: "key_month k = 1" and a2: "1001 \<le> key_year k" by simp_all
    show ?thesis using prev_wf_jan(2,3) [OF wf a1 a2] a1 a2 by (simp add: month_index_def)
  qed
  show "getPreviousMonth k < k"
    using cases prev_wf_nonjan(4) [OF wf] prev_wf_jan(4) [OF wf] by blast
qed

section \<open>Adjacent month keys\<close>

text \<open>
  Claim C9, as amended. For a well-formed key \<open>k\<close>:
  \<^item> unless \<open>k\<close> is a January key with a year of at most 1000, \<open>getPreviousMonth k\<close> is the
    well-formed key of the month before (December of the year before for a January key),
    it is smaller than \<open>k\<close> in the order of strings, and \<open>getNextMonth\<close> leads back to \<open>k\<close>;
  \<^item> unless \<open>k\<close> is a December key with a year below 1000 or the year 9999,
    \<open>getNextMonth k\<close> is the well-formed key of the month after (January of the year after
    for a December key), it is greater than \<open>k\<close>, and \<open>getPreviousMonth\<close> leads back to \<open>k\<close>.
  The excluded keys are those where the year changes and is written without padding, or
  with a fifth digit.
\<close>

theorem month_navigation_adjacent:
  assumes wf: "wf_month_key k"
  shows "(key_month k \<noteq> 1 \<or> 1001 \<le> key_year k \<longrightarrow>
            wf_month_key (getPreviousMonth k)
          \<and> key_month (getPreviousMonth k) = (if key_month k = 1 then 12 else key_month k - 1)
          \<and> key_year (getPreviousMonth k) = (if key_month k = 1 then key_year k - 1 else key_year k)
          \<and> getPreviousMonth k < k
          \<and> getNextMonth (getPreviousMonth k) = k)
       \<and> (key_month k \<noteq> 12 \<or> (1000 \<le> key_year k \<and> key_year k \<le> 9998) \<longrightarrow>
            wf_month_key (getNextMonth k)
          \<and> key_month (getNextMonth k) = (if key_month k = 12 then 1 else key_month k + 1)
          \<and> key_year (getNextMonth k) = (if key_month k = 12 then key_year k + 1 else key_year k)
          \<and> k < getNextMonth k
          \<and> getPreviousMonth (getNextMonth k) = k)"
proof (intro conjI impI)
  assume a: "key_month k \<noteq> 1 \<or> 1001 \<le> key_year k"
  show "wf_month_key (getPreviousMonth k)"
    using a prev_wf_nonjan(1) [OF wf] prev_wf_jan(1) [OF wf] by blast
  show "key_month (getPreviousMonth k) = (if key_month k = 1 then 12 else key_month k - 1)"
    using a prev_wf_nonjan(3) [OF wf] prev_wf_jan(3) [OF wf] by auto
  show "key_year (getPreviousMonth k) = (if key_month k = 1 then key_year k - 1 else key_year k)"
    using a prev_wf_nonjan(2) [OF wf] prev_wf_jan(2) [OF wf] by auto
  show "getPreviousMonth k < k"
    using a prev_wf_nonjan(4) [OF wf] prev_wf_jan(4) [OF wf] by blast
  show "getNextMonth (getPreviousMonth k) = k"
    using a prev_wf_nonjan(5) [OF wf] prev_wf_jan(5) [OF wf] by blast
next
  assume a: "key_month k \<noteq> 12 \<or> (1000 \<le> key_year k \<and> key_year k \<le> 9998)"
  show "wf_month_key (getNextMonth k)"
    using a next_wf_nondec(1) [OF wf] next_wf_dec(1) [OF wf] by blast
  show "key_month (getNextMonth k) = (if key_month k = 12 then 1 else key_month k + 1)"
    using a next_wf_nondec(3) [OF wf] next_wf_dec(3) [OF wf] by auto
  show "key_year (getNextMonth k) = (if key_month k = 12 then key_year k + 1 else key_year k)"
    using a next_wf_nondec(2) [OF wf] next_wf_dec(2) [OF wf] by auto
  show "k < getNextMonth k"
    using a next_wf_nondec(4) [OF wf] next_wf_dec(4) [OF wf] by blast
  show "getPreviousMonth (getNextMonth k) = k"
    using a next_wf_nondec(5) [OF wf] next_wf_dec(5) [OF wf] by blast
qed

theorem month_navigation_adjacent_witness:
  "wf_month_key ''2026-01'' \<and> 1001 \<le> key_year ''2026-01''
   \<and> getPreviousMonth ''2026-01'' = ''2025-12''
   \<and> wf_month_key (getPreviousMonth ''2026-01'')
   \<and> getPreviousMonth ''2026-01'' < ''2026-01''
   \<and> getNextMonth (getPreviousMonth ''2026-01'') = ''2026-01''
   \<and> key_month ''2026-01'' \<noteq> 12
   \<and> getNextMonth ''2026-01'' = ''2026-02''
   \<and> ''2026-01'' < getNextMonth ''2026-01''
   \<and> getPreviousMonth (getNextMonth ''2026-01'') = ''2026-01''"
proof -
  have wf: "wf_month_key ''2026-01''" by code_simp
  have yr: "1001 \<le> key_year ''2026-01''" by code_simp
  have m: "key_month ''2026-01'' \<noteq> 12" by code_simp
  have p: "getPreviousMonth ''2026-01'' = ''2025-12''" by code_simp
  have n: "getNextMonth ''2026-01'' = ''2026-02''" by code_simp
  show ?thesis
    using month_navigation_adjacent [OF wf] wf yr m p n by simp
qed

text \<open>
  Claim C9 as stated fails at the year boundaries: the key before \<open>1000-01\<close> is \<open>999-12\<close>,
  which is not well-formed and is not smaller in the order of strings; the key after
  \<open>9999-12\<close> is \<open>10000-01\<close>, which is not greater; and from \<open>0999-01\<close> the two functions
  do not lead back.
\<close>

theorem month_navigation_counterexample:
  "wf_month_key ''1000-01''
   \<and> getPreviousMonth ''1000-01'' = ''999-12''
   \<and> \<not> wf_month_key (getPreviousMonth ''1000-01'')
   \<and> \<not> getPreviousMonth ''1000-01'' < ''1000-01''
   \<and> wf_month_key ''9999-12''
   \<and> getNextMonth ''9999-12'' = ''10000-01''
   \<and> \<not> ''9999-12'' < getNextMonth ''9999-12''
   \<and> wf_month_key ''0999-01''
   \<and> getNextMonth (getPreviousMonth ''0999-01'') = ''999-01''"
  by code_simp

section \<open>Transactions of a month\<close>

lemma getTransactionsForMonth_wf:
  assumes wf: "wf_month_key k"
  shows "getTransactionsForMonth env ts k = Inr (filter (in_month env k) ts)"
proof -
  obtain y mo where k: "k = y @ CHR ''-'' # mo" and kp: "key_parts y mo"
    using wf by (rule wf_month_keyE)
  have sp: "destructure2 (split_on CHR ''-'' (y @ CHR ''-'' # mo)) = (Some y, Some mo)"
    using split_key key_partsD(3,4) [OF kp] by simp
  have py: "parseInt (Some y) = Some (int (dec_value y))"
    using parseInt_digits key_partsD(3,7) [OF kp] by (simp add: parseInt_def)
  have pm: "parseInt (Some mo) = Some (int (dec_value mo))"
    using parseInt_digits key_partsD(4,8) [OF kp] by (simp add: parseInt_def)
  have ky: "key_year k = dec_value y" and km: "key_month k = dec_value mo"
    using kp by (simp_all add: k)
  have "in_month env k = (\<lambda>t. date_ge (date_parse env (timestamp t))
                                  (Some (date_local env (int (dec_value y)) (int (dec_value mo) - 1)))
                          \<and> date_lt (date_parse env (timestamp t))
                                  (Some (date_local env (int (dec_value y)) (int (dec_value mo)))))"
    by (auto simp: in_month_def ky km date_ge_def date_lt_def fun_eq_iff split: option.splits)
  then show ?thesis
    by (simp add: getTransactionsForMonth_def k sp py pm new_Date_local_def num_add_def
        toISOString_def Let_def)
qed

lemma getTransactionsForMonth_subset:
  "getTransactionsForMonth env ts k = Inr txs \<Longrightarrow> set txs \<subseteq> set ts"
  by (auto simp: getTransactionsForMonth_def Let_def split: prod.splits sum.splits)

lemma getTransactionsForMonth_Nil:
  "getTransactionsForMonth env ts k = Inr txs \<Longrightarrow> getTransactionsForMonth env [] k = Inr []"
  by (auto simp: getTransactionsForMonth_def Let_def split: prod.splits sum.splits)

section \<open>The total of a list of transactions\<close>

lemma foldl_total:
  "foldl (\<lambda>total transaction.
            case tx_type transaction of
              Withdraw \<Rightarrow> total + amount transaction
            | Deposit \<Rightarrow> total - amount transaction) a txs
     = a + withdraw_sum txs - deposit_sum txs"
proof (induction txs arbitrary: a)
  case Nil
  show ?case by (simp add: withdraw_sum_def deposit_sum_def)
next
  case (Cons t txs)
  show ?case
    by (cases "tx_type t") (simp_all add: Cons.IH withdraw_sum_def deposit_sum_def)
qed

lemma calculateTotalForMonth_sum:
  "getTransactionsForMonth env ts k = Inr txs \<Longrightarrow>
   calculateTotalForMonth env ts k = Inr (withdraw_sum txs - deposit_sum txs)"
  by (simp add: calculateTotalForMonth_def foldl_total)

lemma calculateTotalForMonth_error:
  "getTransactionsForMonth env ts k = Inl e \<Longrightarrow> calculateTotalForMonth env ts k = Inl e"
  by (simp add: calculateTotalForMonth_def)

lemma calculateTotalForMonth_wf:
  "wf_month_key k \<Longrightarrow>
   calculateTotalForMonth env ts k
     = Inr (withdraw_sum (filter (in_month env k) ts) - deposit_sum (filter (in_month env k) ts))"
  by (simp add: calculateTotalForMonth_sum getTransactionsForMonth_wf)

section \<open>One step of the rollover recursion\<close>

lemma carry_with_total:
  "(case getTransactionsForMonth env ts p of
      Inl e \<Rightarrow> Inl e
    | Inr txs \<Rightarrow>
        Inr (a + r - foldl (\<lambda>total transaction.
                             case tx_type transaction of
                               Withdraw \<Rightarrow> total + amount transaction
                             | Deposit \<Rightarrow> total - amount transaction) 0 txs))
   = (case calculateTotalForMonth env ts p of
        Inl e \<Rightarrow> Inl e
      | Inr t \<Rightarrow> Inr (a + r - t))"
  by (simp add: calculateTotalForMonth_def split: sum.splits)

lemma calculateRolloverAmount_step:
  "calculateRolloverAmount env ts bs m =
     (case find (\<lambda>b. month_year b = getPreviousMonth m) bs of
        None \<Rightarrow> Some (Inr 0)
      | Some pb \<Rightarrow>
          Option.bind
            (if rollover_enabled pb then calculateRolloverAmount env ts bs (getPreviousMonth m)
             else Some (Inr 0))
            (\<lambda>inner.
               Some (case inner of
                       Inl e \<Rightarrow> Inl e
                     | Inr r \<Rightarrow>
                         (case calculateTotalForMonth env ts (getPreviousMonth m) of
                            Inl e \<Rightarrow> Inl e
                          | Inr t \<Rightarrow> Inr (budget_amount pb + r - t)))))"
  by (subst calculateRolloverAmount.simps) (simp only: Let_def carry_with_total)

lemma calculateRolloverAmount_bounded_step:
  "calculateRolloverAmount_bounded (Suc n) env ts bs m =
     (case find (\<lambda>b. month_year b = getPreviousMonth m) bs of
        None \<Rightarrow> Some (Inr 0)
      | Some pb \<Rightarrow>
          Option.bind
            (if rollover_enabled pb
             then calculateRolloverAmount_bounded n env ts bs (getPreviousMonth m)
             else Some (Inr 0))
            (\<lambda>inner.
               Some (case inner of
                       Inl e \<Rightarrow> Inl e
                     | Inr r \<Rightarrow>
                         (case calculateTotalForMonth env ts (getPreviousMonth m) of
                            Inl e \<Rightarrow> Inl e
                          | Inr t \<Rightarrow> Inr (budget_amount pb + r - t)))))"
  by (simp only: calculateRolloverAmount_bounded.simps Let_def carry_with_total)

lemma calculateRolloverAmount_no_record:
  "find (\<lambda>b. month_year b = getPreviousMonth m) bs = None \<Longrightarrow>
   calculateRolloverAmount env ts bs m = Some (Inr 0)"
  by (subst calculateRolloverAmount_step) simp

lemma calculateRolloverAmount_disabled:
  "find (\<lambda>b. month_year b = getPreviousMonth m) bs = Some pb \<Longrightarrow> \<not> rollover_enabled pb \<Longrightarrow>
   calculateTotalForMonth env ts (getPreviousMonth m) = Inr t \<Longrightarrow>
   calculateRolloverAmount env ts bs m = Some (Inr (budget_amount pb - t))"
  by (subst calculateRolloverAmount_step) simp

lemma calculateRolloverAmount_enabled:
  "find (\<lambda>b. month_year b = getPreviousMonth m) bs = Some pb \<Longrightarrow> rollover_enabled pb \<Longrightarrow>
   calculateRolloverAmount env ts bs (getPreviousMonth m) = Some (Inr r) \<Longrightarrow>
   calculateTotalForMonth env ts (getPreviousMonth m) = Inr t \<Longrightarrow>
   calculateRolloverAmount env ts bs m = Some (Inr (budget_amount pb + r - t))"
  by (subst calculateRolloverAmount_step) simp

lemma bounded_imp_unbounded:
  "calculateRolloverAmount_bounded n env ts bs m = Some v \<Longrightarrow>
   calculateRolloverAmount env ts bs m = Some v"
proof (induction n arbitrary: m v)
  case 0
  then show ?case by simp
next
  case (Suc n)
  have p: "(case find (\<lambda>b. month_year b = getPreviousMonth m) bs of
              None \<Rightarrow> Some (Inr 0)
            | Some pb \<Rightarrow>
                Option.bind
                  (if rollover_enabled pb
                   then calculateRolloverAmount_bounded n env ts bs (getPreviousMonth m)
                   else Some (Inr 0))
                  (\<lambda>inner.
                     Some (case inner of
                             Inl e \<Rightarrow> Inl e
                           | Inr r \<Rightarrow>
                               (case calculateTotalForMonth env ts (getPreviousMonth m) of
                                  Inl e \<Rightarrow> Inl e
                                | Inr t \<Rightarrow> Inr (budget_amount pb + r - t))))) = Some v"
    using Suc.prems by (simp only: calculateRolloverAmount_bounded_step)
  show ?case
  proof (cases "find (\<lambda>b. month_year b = getPreviousMonth m) bs")
    case None
    then show ?thesis
      using p by (simp add: calculateRolloverAmount_no_record)
  next
    case (Some pb)
    show ?thesis
    proof (cases "rollover_enabled pb")
      case False
      then show ?thesis
        using p Some by (subst calculateRolloverAmount_step) simp
    next
      case True
      then obtain inner where
        i: "calculateRolloverAmount_bounded n env ts bs (getPreviousMonth m) = Some inner"
        using p Some by (auto split: Option.bind_splits)
      have "calculateRolloverAmount env ts bs (getPreviousMonth m) = Some inner"
        using Suc.IH [OF i] .
      then show ?thesis
        using p Some True i by (subst calculateRolloverAmount_step) simp
    qed
  qed
qed

lemma find_month_key:
  "find (\<lambda>b. month_year b = k) bs = Some b \<Longrightarrow> b \<in> set bs \<and> month_year b = k"
  by (induction bs) (auto split: if_splits)

lemma find_None_iff_month: "find (\<lambda>b. month_year b = k) bs = None \<longleftrightarrow> (\<forall>b\<in>set bs. month_year b \<noteq> k)"
  by (induction bs) auto

lemma map_of_month_find:
  "map_of (map (\<lambda>b. (month_year b, b)) bs) k = find (\<lambda>b. month_year b = k) bs"
  by (induction bs) auto

section \<open>The chain of months with rollover enabled\<close>

lemma rollover_chain_iterates:
  "rollover_chain bs m d \<longleftrightarrow>
     (\<forall>i<d. has_rollover_record bs ((getPreviousMonth ^^ Suc i) m))
     \<and> \<not> has_rollover_record bs ((getPreviousMonth ^^ Suc d) m)"
proof (induction d arbitrary: m)
  case 0
  show ?case by simp
next
  case (Suc d)
  have "(\<forall>i<Suc d. has_rollover_record bs ((getPreviousMonth ^^ Suc i) m))
          \<longleftrightarrow> has_rollover_record bs (getPreviousMonth m)
              \<and> (\<forall>i<d. has_rollover_record bs ((getPreviousMonth ^^ Suc i) (getPreviousMonth m)))"
    (is "?L \<longleftrightarrow> ?A \<and> ?R")
  proof
    assume l: ?L
    have ?A using l [rule_format, of 0] by simp
    moreover have ?R
    proof (intro allI impI)
      fix i assume "i < d"
      then show "has_rollover_record bs ((getPreviousMonth ^^ Suc i) (getPreviousMonth m))"
        using l [rule_format, of "Suc i"] by (simp add: funpow_swap1)
    qed
    ultimately show "?A \<and> ?R" by simp
  next
    assume r: "?A \<and> ?R"
    show ?L
    proof (intro allI impI)
      fix i assume i: "i < Suc d"
      show "has_rollover_record bs ((getPreviousMonth ^^ Suc i) m)"
      proof (cases i)
        case 0
        then show ?thesis using r by simp
      next
        case (Suc j)
        then show ?thesis using r i by (simp add: funpow_swap1)
      qed
    qed
  qed
  moreover have "(getPreviousMonth ^^ Suc (Suc d)) m = (getPreviousMonth ^^ Suc d) (getPreviousMonth m)"
    by (simp add: funpow_swap1)
  ultimately show ?case using Suc.IH [of "getPreviousMonth m"] by (simp del: funpow.simps)
qed

lemma rollover_chain_unique:
  "rollover_chain bs m d \<Longrightarrow> rollover_chain bs m d' \<Longrightarrow> d = d'"
proof (induction d arbitrary: m d')
  case 0
  then show ?case by (cases d') simp_all
next
  case (Suc d)
  then show ?case by (cases d') auto
qed

lemma has_rollover_record_wf:
  assumes "\<forall>b\<in>set bs. wf_month_key (month_year b)" "has_rollover_record bs k"
  shows "wf_month_key k"
proof -
  obtain b where "find (\<lambda>b. month_year b = k) bs = Some b"
    using assms(2) by (auto simp: has_rollover_record_def split: option.splits)
  then show ?thesis using find_month_key assms(1) by blast
qed

lemma rollover_chain_wf_exists:
  assumes wfb: "\<forall>b\<in>set bs. wf_month_key (month_year b)"
  shows "wf_month_key k \<Longrightarrow> \<exists>d. rollover_chain bs k d"
proof (induction "month_index k" arbitrary: k rule: less_induct)
  case less
  show ?case
  proof (cases "has_rollover_record bs (getPreviousMonth k)")
    case False
    then have "rollover_chain bs k 0" by simp
    then show ?thesis ..
  next
    case True
    have wfp: "wf_month_key (getPreviousMonth k)"
      using has_rollover_record_wf [OF wfb True] .
    have "month_index (getPreviousMonth k) < month_index k"
      using prev_wf_index(1) [OF less.prems wfp] by simp
    then obtain d where "rollover_chain bs (getPreviousMonth k) d"
      using less.hyps wfp by blast
    then have "rollover_chain bs k (Suc d)" using True by simp
    then show ?thesis ..
  qed
qed

lemma rollover_chain_exists:
  assumes wfb: "\<forall>b\<in>set bs. wf_month_key (month_year b)"
  shows "\<exists>d. rollover_chain bs m d"
proof (cases "has_rollover_record bs (getPreviousMonth m)")
  case False
  then have "rollover_chain bs m 0" by simp
  then show ?thesis ..
next
  case True
  have "wf_month_key (getPreviousMonth m)"
    using has_rollover_record_wf [OF wfb True] .
  then obtain d where "rollover_chain bs (getPreviousMonth m) d"
    using rollover_chain_wf_exists [OF wfb] by blast
  then have "rollover_chain bs m (Suc d)" using True by simp
  then show ?thesis ..
qed

lemma rollover_chain_returns:
  assumes wfb: "\<forall>b\<in>set bs. wf_month_key (month_year b)"
  shows "rollover_chain bs m d \<Longrightarrow>
         (\<exists>r. calculateRolloverAmount_bounded (Suc d) env ts bs m = Some (Inr r))
         \<and> calculateRolloverAmount_bounded d env ts bs m = None"
proof (induction d arbitrary: m)
  case 0
  have none: "calculateRolloverAmount_bounded 0 env ts bs m = None" by simp
  show ?case
  proof (cases "find (\<lambda>b. month_year b = getPreviousMonth m) bs")
    case None
    then show ?thesis using none by (simp only: calculateRolloverAmount_bounded_step) simp
  next
    case (Some pb)
    have dis: "\<not> rollover_enabled pb"
      using "0.prems" Some by (simp add: has_rollover_record_def)
    have "wf_month_key (getPreviousMonth m)"
      using find_month_key [OF Some] wfb by auto
    then obtain t where "calculateTotalForMonth env ts (getPreviousMonth m) = Inr t"
      using calculateTotalForMonth_wf by blast
    then show ?thesis
      using none Some dis by (simp only: calculateRolloverAmount_bounded_step) simp
  qed
next
  case (Suc d)
  have has: "has_rollover_record bs (getPreviousMonth m)"
    and ch: "rollover_chain bs (getPreviousMonth m) d"
    using Suc.prems by simp_all
  obtain pb where f: "find (\<lambda>b. month_year b = getPreviousMonth m) bs = Some pb"
    and en: "rollover_enabled pb"
    using has by (auto simp: has_rollover_record_def split: option.splits)
  obtain r where r: "calculateRolloverAmount_bounded (Suc d) env ts bs (getPreviousMonth m) = Some (Inr r)"
    and n: "calculateRolloverAmount_bounded d env ts bs (getPreviousMonth m) = None"
    using Suc.IH [OF ch] by blast
  have "wf_month_key (getPreviousMonth m)"
    using has_rollover_record_wf [OF wfb has] .
  then obtain t where t: "calculateTotalForMonth env ts (getPreviousMonth m) = Inr t"
    using calculateTotalForMonth_wf by blast
  have "calculateRolloverAmount_bounded (Suc (Suc d)) env ts bs m
          = Some (Inr (budget_amount pb + r - t))"
    by (subst calculateRolloverAmount_bounded_step) (simp add: f en r t del: calculateRolloverAmount_bounded.simps)
  moreover have "calculateRolloverAmount_bounded (Suc d) env ts bs m = None"
    by (subst calculateRolloverAmount_bounded_step) (simp add: f en n del: calculateRolloverAmount_bounded.simps)
  ultimately show ?case by blast
qed

lemma calculateRolloverAmount_returns:
  assumes wfb: "\<forall>b\<in>set bs. wf_month_key (month_year b)"
  shows "\<exists>r. calculateRolloverAmount env ts bs m = Some (Inr r)"
proof -
  obtain d where "rollover_chain bs m d" using rollover_chain_exists [OF wfb] by blast
  then obtain r where "calculateRolloverAmount_bounded (Suc d) env ts bs m = Some (Inr r)"
    using rollover_chain_returns [OF wfb] by blast
  then show ?thesis using bounded_imp_unbounded by blast
qed

section \<open>The code and the reference definition\<close>

lemma rolloverCarryIn_spec_step:
  "rolloverCarryIn_spec env ts bs m =
     (case find (\<lambda>b. month_year b = getPreviousMonth m) bs of
        None \<Rightarrow> Some (Inr 0)
      | Some pb \<Rightarrow>
          Option.bind
            (if rollover_enabled pb then rolloverCarryIn_spec env ts bs (getPreviousMonth m)
             else Some (Inr 0))
            (\<lambda>inner.
               Some (case inner of
                       Inl e \<Rightarrow> Inl e
                     | Inr r \<Rightarrow>
                         (case calculateTotalForMonth env ts (getPreviousMonth m) of
                            Inl e \<Rightarrow> Inl e
                          | Inr t \<Rightarrow> Inr (budget_amount pb + r - t)))))"
  by (subst rolloverCarryIn_spec.simps) (simp only: Let_def map_of_month_find)

lemma code_le_spec:
  assumes a: "calculateRolloverAmount env ts bs m = Some v"
  shows "rolloverCarryIn_spec env ts bs m = Some v"
proof (rule calculateRolloverAmount.raw_induct
    [where P = "\<lambda>env ts bs m v. rolloverCarryIn_spec env ts bs m = Some v", OF _ a])
  fix f :: "js_date \<Rightarrow> transaction list \<Rightarrow> monthly_budget list \<Rightarrow> string \<Rightarrow> (js_error + real) option"
  fix env ts bs m v
  assume IH: "\<And>env ts bs m v. f env ts bs m = Some v \<Longrightarrow> rolloverCarryIn_spec env ts bs m = Some v"
  assume step: "(let previousMonth = getPreviousMonth m
      in case find (\<lambda>b. month_year b = previousMonth) bs of
           None \<Rightarrow> Some (Inr 0)
         | Some prevBudget \<Rightarrow>
             Option.bind
               (if rollover_enabled prevBudget
                then f env ts bs previousMonth
                else Some (Inr 0))
               (\<lambda>inner.
                  Some (case inner of
                          Inl e \<Rightarrow> Inl e
                        | Inr rolloverAmount \<Rightarrow>
                            (case getTransactionsForMonth env ts previousMonth of
                               Inl e \<Rightarrow> Inl e
                             | Inr prevMonthTransactions \<Rightarrow>
                                 let prevMonthSumTransactions =
                                       foldl (\<lambda>total transaction.
                                                case tx_type transaction of
                                                  Withdraw \<Rightarrow> total + amount transaction
                                                | Deposit \<Rightarrow> total - amount transaction)
                                             0 prevMonthTransactions
                                 in Inr (budget_amount prevBudget + rolloverAmount
                                           - prevMonthSumTransactions))))) = Some v"
  have p: "(case find (\<lambda>b. month_year b = getPreviousMonth m) bs of
              None \<Rightarrow> Some (Inr 0)
            | Some pb \<Rightarrow>
                Option.bind
                  (if rollover_enabled pb then f env ts bs (getPreviousMonth m) else Some (Inr 0))
                  (\<lambda>inner.
                     Some (case inner of
                             Inl e \<Rightarrow> Inl e
                           | Inr r \<Rightarrow>
                               (case calculateTotalForMonth env ts (getPreviousMonth m) of
                                  Inl e \<Rightarrow> Inl e
                                | Inr t \<Rightarrow> Inr (budget_amount pb + r - t))))) = Some v"
    using step by (simp only: Let_def carry_with_total)
  show "rolloverCarryIn_spec env ts bs m = Some v"
  proof (cases "find (\<lambda>b. month_year b = getPreviousMonth m) bs")
    case None
    then show ?thesis using p by (subst rolloverCarryIn_spec_step) simp
  next
    case (Some pb)
    show ?thesis
    proof (cases "rollover_enabled pb")
      case False
      then show ?thesis using p Some by (subst rolloverCarryIn_spec_step) simp
    next
      case True
      then obtain inner where i: "f env ts bs (getPreviousMonth m) = Some inner"
        using p Some by (auto split: Option.bind_splits)
      have "rolloverCarryIn_spec env ts bs (getPreviousMonth m) = Some inner"
        using IH [OF i] .
      then show ?thesis using p Some True i by (subst rolloverCarryIn_spec_step) simp
    qed
  qed
qed

lemma spec_le_code:
  assumes a: "rolloverCarryIn_spec env ts bs m = Some v"
  shows "calculateRolloverAmount env ts bs m = Some v"
proof (rule rolloverCarryIn_spec.raw_induct
    [where P = "\<lambda>env ts bs m v. calculateRolloverAmount env ts bs m = Some v", OF _ a])
  fix f :: "js_date \<Rightarrow> transaction list \<Rightarrow> monthly_budget list \<Rightarrow> string \<Rightarrow> (js_error + real) option"
  fix env ts bs m v
  assume IH: "\<And>env ts bs m v. f env ts bs m = Some v \<Longrightarrow> calculateRolloverAmount env ts bs m = Some v"
  assume step: "(let prev = getPreviousMonth m
      in case map_of (map (\<lambda>b. (month_year b, b)) bs) prev of
           None \<Rightarrow> Some (Inr 0)
         | Some prevBudget \<Rightarrow>
             Option.bind
               (if rollover_enabled prevBudget
                then f env ts bs prev
                else Some (Inr 0))
               (\<lambda>inner.
                  Some (case inner of
                          Inl e \<Rightarrow> Inl e
                        | Inr innerCarry \<Rightarrow>
                            (case calculateTotalForMonth env ts prev of
                               Inl e \<Rightarrow> Inl e
                             | Inr totalSpend \<Rightarrow>
                                 Inr (budget_amount prevBudget + innerCarry - totalSpend))))) = Some v"
  have p: "(case find (\<lambda>b. month_year b = getPreviousMonth m) bs of
              None \<Rightarrow> Some (Inr 0)
            | Some pb \<Rightarrow>
                Option.bind
                  (if rollover_enabled pb then f env ts bs (getPreviousMonth m) else Some (Inr 0))
                  (\<lambda>inner.
                     Some (case inner of
                             Inl e \<Rightarrow> Inl e
                           | Inr r \<Rightarrow>
                               (case calculateTotalForMonth env ts (getPreviousMonth m) of
                                  Inl e \<Rightarrow> Inl e
                                | Inr t \<Rightarrow> Inr (budget_amount pb + r - t))))) = Some v"
    using step by (simp only: Let_def map_of_month_find)
  show "calculateRolloverAmount env ts bs m = Some v"
  proof (cases "find (\<lambda>b. month_year b = getPreviousMonth m) bs")
    case None
    then show ?thesis using p by (subst calculateRolloverAmount_step) simp
  next
    case (Some pb)
    show ?thesis
    proof (cases "rollover_enabled pb")
      case False
      then show ?thesis using p Some by (subst calculateRolloverAmount_step) simp
    next
      case True
      then obtain inner where i: "f env ts bs (getPreviousMonth m) = Some inner"
        using p Some by (auto split: Option.bind_splits)
      have "calculateRolloverAmount env ts bs (getPreviousMonth m) = Some inner"
        using IH [OF i] .
      then show ?thesis using p Some True i by (subst calculateRolloverAmount_step) simp
    qed
  qed
qed

section \<open>Rounding to a double\<close>





section \<open>The total of a month in double arithmetic\<close>










section \<open>The budget summary\<close>

lemma summary_absent:
  assumes "find (\<lambda>b. month_year b = m) bs = None"
      and "calculateRolloverAmount env ts bs m = Some (Inr r)"
      and "calculateTotalForMonth env ts m = Inr t"
  shows "calculateBudgetSummary env m ts bs d =
           Some (Inr \<lparr>summary_month_year = m, summary_budget_amount = d + r,
                      total_transactions = t, remaining_budget = d + r - t,
                      is_over_budget = (d + r - t < 0), summary_rollover_enabled = True\<rparr>)"
  using assms by (simp add: calculateBudgetSummary_def Let_def)

lemma summary_enabled:
  assumes "find (\<lambda>b. month_year b = m) bs = Some b" "rollover_enabled b"
      and "calculateRolloverAmount env ts bs m = Some (Inr r)"
      and "calculateTotalForMonth env ts m = Inr t"
  shows "calculateBudgetSummary env m ts bs d =
           Some (Inr \<lparr>summary_month_year = m, summary_budget_amount = d + r,
                      total_transactions = t, remaining_budget = d + r - t,
                      is_over_budget = (d + r - t < 0), summary_rollover_enabled = True\<rparr>)"
  using assms by (simp add: calculateBudgetSummary_def Let_def)

lemma summary_disabled:
  assumes "find (\<lambda>b. month_year b = m) bs = Some b" "\<not> rollover_enabled b"
      and "calculateTotalForMonth env ts m = Inr t"
  shows "calculateBudgetSummary env m ts bs d =
           Some (Inr \<lparr>summary_month_year = m, summary_budget_amount = d,
                      total_transactions = t, remaining_budget = d - t,
                      is_over_budget = (d - t < 0), summary_rollover_enabled = False\<rparr>)"
  using assms by (simp add: calculateBudgetSummary_def Let_def)

lemma summary_returned:
  assumes "calculateBudgetSummary env m ts bs d = Some (Inr s)"
  shows "calculateTotalForMonth env ts m = Inr (total_transactions s)
       \<and> remaining_budget s = summary_budget_amount s - total_transactions s
       \<and> is_over_budget s = (remaining_budget s < 0)
       \<and> summary_rollover_enabled s =
           (case find (\<lambda>b. month_year b = m) bs of
              None \<Rightarrow> True
            | Some b \<Rightarrow> rollover_enabled b)"
proof (cases "find (\<lambda>b. month_year b = m) bs")
  case None
  then show ?thesis
    using assms
    by (cases "calculateRolloverAmount env ts bs m")
       (auto simp: calculateBudgetSummary_def Let_def map_sum_def split: sum.splits)
next
  case (Some b)
  then show ?thesis
    using assms
    by (cases "calculateRolloverAmount env ts bs m"; cases "rollover_enabled b")
       (auto simp: calculateBudgetSummary_def Let_def map_sum_def split: sum.splits)
qed

text \<open>
  Claim C5. Every summary that \<open>calculateBudgetSummary\<close> returns has its remaining budget
  equal to its budget amount minus the month's total, and is over budget exactly when the
  remaining budget is negative: not at 0, and at every negative value.
\<close>

theorem summary_remaining_and_over_budget:
  assumes "calculateBudgetSummary env m ts bs d = Some (Inr s)"
  shows "calculateTotalForMonth env ts m = Inr (total_transactions s)
       \<and> remaining_budget s = summary_budget_amount s - total_transactions s
       \<and> is_over_budget s = (remaining_budget s < 0)
       \<and> (remaining_budget s = 0 \<longrightarrow> \<not> is_over_budget s)
       \<and> (remaining_budget s < 0 \<longrightarrow> is_over_budget s)"
proof -
  note r = summary_returned [OF assms]
  have t: "calculateTotalForMonth env ts m = Inr (total_transactions s)" using r by simp
  have rem: "remaining_budget s = summary_budget_amount s - total_transactions s"
    using r by simp
  have ov: "is_over_budget s = (remaining_budget s < 0)" using r by simp
  show ?thesis using t rem ov by simp
qed

theorem summary_remaining_and_over_budget_witness:
  "(\<exists>s. calculateBudgetSummary utc_host ''2025-10''
           [sample_tx 1 1000.01 Withdraw ''2025-10-15T12:00:00.000Z'']
           [sample_budget 1 ''2025-10'' 1000 False] 1000 = Some (Inr s)
        \<and> calculateTotalForMonth utc_host
             [sample_tx 1 1000.01 Withdraw ''2025-10-15T12:00:00.000Z''] ''2025-10''
            = Inr 1000.01
        \<and> remaining_budget s = - 0.01 \<and> is_over_budget s)
   \<and> (\<exists>s. calculateBudgetSummary utc_host ''2025-10''
           [sample_tx 1 1000 Withdraw ''2025-10-15T12:00:00.000Z'']
           [sample_budget 1 ''2025-10'' 1000 False] 1000 = Some (Inr s)
        \<and> calculateTotalForMonth utc_host
             [sample_tx 1 1000 Withdraw ''2025-10-15T12:00:00.000Z''] ''2025-10''
            = Inr 1000
        \<and> remaining_budget s = 0 \<and> \<not> is_over_budget s)"
proof -
  let ?s1 = "\<lparr>summary_month_year = ''2025-10'', summary_budget_amount = 1000,
              total_transactions = 1000.01, remaining_budget = - 0.01,
              is_over_budget = True, summary_rollover_enabled = False\<rparr>"
  let ?s2 = "\<lparr>summary_month_year = ''2025-10'', summary_budget_amount = 1000,
              total_transactions = 1000, remaining_budget = 0,
              is_over_budget = False, summary_rollover_enabled = False\<rparr>"
  have e1: "calculateBudgetSummary utc_host ''2025-10''
              [sample_tx 1 1000.01 Withdraw ''2025-10-15T12:00:00.000Z'']
              [sample_budget 1 ''2025-10'' 1000 False] 1000 = Some (Inr ?s1)"
    by code_simp
  have e2: "calculateBudgetSummary utc_host ''2025-10''
              [sample_tx 1 1000 Withdraw ''2025-10-15T12:00:00.000Z'']
              [sample_budget 1 ''2025-10'' 1000 False] 1000 = Some (Inr ?s2)"
    by code_simp
  show ?thesis
    using summary_remaining_and_over_budget [OF e1] summary_remaining_and_over_budget [OF e2]
      e1 e2
    by simp
qed

text \<open>
  Claim C2. When the budgets hold a record for the month, the budget amount of the
  summary is the default amount plus the carry-in of the month if the record has rollover
  enabled, and the default amount alone if it has not; the amount stored in the record
  does not enter either value. The summary is returned whenever the carry-in (if needed)
  and the month's total are, which is the case when every budget record has a
  well-formed month key.
\<close>

theorem summary_effective_amount:
  assumes f: "find (\<lambda>b. month_year b = m) bs = Some b"
  shows "(\<forall>r t. rollover_enabled b
                \<and> calculateRolloverAmount env ts bs m = Some (Inr r)
                \<and> calculateTotalForMonth env ts m = Inr t
             \<longrightarrow> calculateBudgetSummary env m ts bs d =
                   Some (Inr \<lparr>summary_month_year = m, summary_budget_amount = d + r,
                              total_transactions = t, remaining_budget = d + r - t,
                              is_over_budget = (d + r - t < 0),
                              summary_rollover_enabled = True\<rparr>))
       \<and> (\<forall>t. \<not> rollover_enabled b \<and> calculateTotalForMonth env ts m = Inr t
             \<longrightarrow> calculateBudgetSummary env m ts bs d =
                   Some (Inr \<lparr>summary_month_year = m, summary_budget_amount = d,
                              total_transactions = t, remaining_budget = d - t,
                              is_over_budget = (d - t < 0),
                              summary_rollover_enabled = False\<rparr>))
       \<and> ((\<forall>b'\<in>set bs. wf_month_key (month_year b'))
             \<longrightarrow> (\<exists>r t s. calculateRolloverAmount env ts bs m = Some (Inr r)
                        \<and> calculateTotalForMonth env ts m = Inr t
                        \<and> calculateBudgetSummary env m ts bs d = Some (Inr s)
                        \<and> summary_budget_amount s = (if rollover_enabled b then d + r else d)))"
proof (intro conjI allI impI)
  fix r t
  assume "rollover_enabled b \<and> calculateRolloverAmount env ts bs m = Some (Inr r)
            \<and> calculateTotalForMonth env ts m = Inr t"
  then show "calculateBudgetSummary env m ts bs d =
               Some (Inr \<lparr>summary_month_year = m, summary_budget_amount = d + r,
                          total_transactions = t, remaining_budget = d + r - t,
                          is_over_budget = (d + r - t < 0),
                          summary_rollover_enabled = True\<rparr>)"
    using summary_enabled [OF f] by blast
next
  fix t
  assume "\<not> rollover_enabled b \<and> calculateTotalForMonth env ts m = Inr t"
  then show "calculateBudgetSummary env m ts bs d =
               Some (Inr \<lparr>summary_month_year = m, summary_budget_amount = d,
                          total_transactions = t, remaining_budget = d - t,
                          is_over_budget = (d - t < 0),
                          summary_rollover_enabled = False\<rparr>)"
    using summary_disabled [OF f] by blast
next
  assume wfb: "\<forall>b'\<in>set bs. wf_month_key (month_year b')"
  obtain r where r: "calculateRolloverAmount env ts bs m = Some (Inr r)"
    using calculateRolloverAmount_returns [OF wfb] by blast
  have "wf_month_key m" using find_month_key [OF f] wfb by auto
  then obtain t where t: "calculateTotalForMonth env ts m = Inr t"
    using calculateTotalForMonth_wf by blast
  show "\<exists>r t s. calculateRolloverAmount env ts bs m = Some (Inr r)
                \<and> calculateTotalForMonth env ts m = Inr t
                \<and> calculateBudgetSummary env m ts bs d = Some (Inr s)
                \<and> summary_budget_amount s = (if rollover_enabled b then d + r else d)"
  proof (cases "rollover_enabled b")
    case True
    then show ?thesis using summary_enabled [OF f True r t, of d] r t by auto
  next
    case False
    then show ?thesis using summary_disabled [OF f False t, of d] r t by auto
  qed
qed

theorem summary_effective_amount_witness:
  "find (\<lambda>b. month_year b = ''2025-10'')
        [sample_budget 1 ''2025-09'' 1000 False, sample_budget 2 ''2025-10'' 9999 True]
     = Some (sample_budget 2 ''2025-10'' 9999 True)
   \<and> calculateBudgetSummary utc_host ''2025-10''
        [sample_tx 1 800 Withdraw ''2025-09-10T09:30:00.000Z'',
         sample_tx 2 1300 Withdraw ''2025-10-05T18:00:00.000Z'']
        [sample_budget 1 ''2025-09'' 1000 False, sample_budget 2 ''2025-10'' 9999 True] 1000
     = Some (Inr \<lparr>summary_month_year = ''2025-10'', summary_budget_amount = 1200,
                  total_transactions = 1300, remaining_budget = - 100,
                  is_over_budget = True, summary_rollover_enabled = True\<rparr>)
   \<and> find (\<lambda>b. month_year b = ''2025-10'')
        [sample_budget 1 ''2025-09'' 1000 False, sample_budget 2 ''2025-10'' 9999 False]
     = Some (sample_budget 2 ''2025-10'' 9999 False)
   \<and> calculateBudgetSummary utc_host ''2025-10''
        [sample_tx 1 800 Withdraw ''2025-09-10T09:30:00.000Z'',
         sample_tx 2 1300 Withdraw ''2025-10-05T18:00:00.000Z'']
        [sample_budget 1 ''2025-09'' 1000 False, sample_budget 2 ''2025-10'' 9999 False] 1000
     = Some (Inr \<lparr>summary_month_year = ''2025-10'', summary_budget_amount = 1000,
                  total_transactions = 1300, remaining_budget = - 300,
                  is_over_budget = True, summary_rollover_enabled = False\<rparr>)"
proof -
  let ?ts = "[sample_tx 1 800 Withdraw ''2025-09-10T09:30:00.000Z'',
              sample_tx 2 1300 Withdraw ''2025-10-05T18:00:00.000Z'']"
  let ?on = "[sample_budget 1 ''2025-09'' 1000 False, sample_budget 2 ''2025-10'' 9999 True]"
  let ?off = "[sample_budget 1 ''2025-09'' 1000 False, sample_budget 2 ''2025-10'' 9999 False]"
  have f1: "find (\<lambda>b. month_year b = ''2025-10'') ?on = Some (sample_budget 2 ''2025-10'' 9999 True)"
    by (simp add: sample_budget_def)
  have f2: "find (\<lambda>b. month_year b = ''2025-10'') ?off = Some (sample_budget 2 ''2025-10'' 9999 False)"
    by (simp add: sample_budget_def)
  have en: "rollover_enabled (sample_budget 2 ''2025-10'' 9999 True)"
           "\<not> rollover_enabled (sample_budget 2 ''2025-10'' 9999 False)"
    by (simp_all add: sample_budget_def)
  have r: "calculateRolloverAmount utc_host ?ts ?on ''2025-10'' = Some (Inr 200)"
    by code_simp
  have t: "calculateTotalForMonth utc_host ?ts ''2025-10'' = Inr 1300"
    by code_simp
  show ?thesis
    using summary_effective_amount [OF f1, of utc_host ?ts 1000]
          summary_effective_amount [OF f2, of utc_host ?ts 1000] f1 f2 en r t
    by simp
qed

text \<open>
  Claim C10. When the budgets hold no record for the month,
  \<open>recalculateWithRolloverChange\<close> does not depend on the requested rollover value: the
  list of budgets is passed on unchanged, so the result is that of
  \<open>calculateBudgetSummary\<close> for either value, and every summary it returns has rollover
  enabled.
\<close>

theorem toggle_without_record:
  assumes none: "\<forall>b\<in>set bs. month_year b \<noteq> m"
  shows "recalculateWithRolloverChange env m ts bs True d
           = recalculateWithRolloverChange env m ts bs False d
       \<and> recalculateWithRolloverChange env m ts bs e d = calculateBudgetSummary env m ts bs d
       \<and> (\<forall>s. recalculateWithRolloverChange env m ts bs e d = Some (Inr s)
              \<longrightarrow> summary_rollover_enabled s)
       \<and> (\<forall>r t. calculateRolloverAmount env ts bs m = Some (Inr r)
                \<and> calculateTotalForMonth env ts m = Inr t
              \<longrightarrow> recalculateWithRolloverChange env m ts bs e d =
                    Some (Inr \<lparr>summary_month_year = m, summary_budget_amount = d + r,
                               total_transactions = t, remaining_budget = d + r - t,
                               is_over_budget = (d + r - t < 0),
                               summary_rollover_enabled = True\<rparr>))"
proof -
  have same: "map (\<lambda>budget. if month_year budget = m
                              then budget\<lparr>rollover_enabled := x\<rparr> else budget) bs = bs" for x
    using none by (induction bs) simp_all
  have eq: "recalculateWithRolloverChange env m ts bs x d = calculateBudgetSummary env m ts bs d"
    for x
    by (simp add: recalculateWithRolloverChange_def same)
  have f: "find (\<lambda>b. month_year b = m) bs = None"
    using none by (simp add: find_None_iff_month)
  have en: "summary_rollover_enabled s"
    if s: "calculateBudgetSummary env m ts bs d = Some (Inr s)" for s
    using summary_returned [OF s] f by simp
  show ?thesis
    using eq en summary_absent [OF f] by auto
qed

theorem toggle_without_record_witness:
  "''2025-10'' \<notin> set (map month_year [sample_budget 1 ''2025-09'' 1000 False])
   \<and> recalculateWithRolloverChange utc_host ''2025-10''
        [sample_tx 1 800 Withdraw ''2025-09-10T09:30:00.000Z'']
        [sample_budget 1 ''2025-09'' 1000 False] False 1000
     = Some (Inr \<lparr>summary_month_year = ''2025-10'', summary_budget_amount = 1200,
                  total_transactions = 0, remaining_budget = 1200,
                  is_over_budget = False, summary_rollover_enabled = True\<rparr>)
   \<and> recalculateWithRolloverChange utc_host ''2025-10''
        [sample_tx 1 800 Withdraw ''2025-09-10T09:30:00.000Z'']
        [sample_budget 1 ''2025-09'' 1000 False] True 1000
     = recalculateWithRolloverChange utc_host ''2025-10''
        [sample_tx 1 800 Withdraw ''2025-09-10T09:30:00.000Z'']
        [sample_budget 1 ''2025-09'' 1000 False] False 1000"
proof -
  let ?ts = "[sample_tx 1 800 Withdraw ''2025-09-10T09:30:00.000Z'']"
  let ?bs = "[sample_budget 1 ''2025-09'' 1000 False]"
  have none: "\<forall>b\<in>set ?bs. month_year b \<noteq> ''2025-10''"
    by (simp add: sample_budget_def)
  have r: "calculateRolloverAmount utc_host ?ts ?bs ''2025-10'' = Some (Inr 200)"
    by code_simp
  have t: "calculateTotalForMonth utc_host ?ts ''2025-10'' = Inr 0"
    by code_simp
  note th = toggle_without_record [OF none, where env = utc_host and ts = ?ts and e = False
                                     and d = 1000]
  have "recalculateWithRolloverChange utc_host ''2025-10'' ?ts ?bs False 1000 =
          Some (Inr \<lparr>summary_month_year = ''2025-10'', summary_budget_amount = 1000 + 200,
                     total_transactions = 0, remaining_budget = 1000 + 200 - 0,
                     is_over_budget = ((1000::real) + 200 - 0 < 0),
                     summary_rollover_enabled = True\<rparr>)"
    using th r t by blast
  then have a: "recalculateWithRolloverChange utc_host ''2025-10'' ?ts ?bs False 1000 =
          Some (Inr \<lparr>summary_month_year = ''2025-10'', summary_budget_amount = 1200,
                     total_transactions = 0, remaining_budget = 1200,
                     is_over_budget = False, summary_rollover_enabled = True\<rparr>)"
    by simp
  have b: "recalculateWithRolloverChange utc_host ''2025-10'' ?ts ?bs True 1000
             = recalculateWithRolloverChange utc_host ''2025-10'' ?ts ?bs False 1000"
    using th by blast
  have "''2025-10'' \<notin> set (map month_year ?bs)" using none by auto
  then show ?thesis using a b by blast
qed

text \<open>
  Claim C8, as amended. For a month with no budget record and no transaction, the summary
  has a total of 0, a remaining budget equal to the budget amount, which is the default
  amount plus the carry-in, and rollover enabled; it is over budget exactly when that
  amount is negative, so it is not over budget when the carry-in is at least minus the
  default amount. The summary is returned whenever the carry-in is, which is the case when
  every budget record has a well-formed month key.
\<close>

theorem fresh_month_summary:
  assumes none: "\<forall>b\<in>set bs. month_year b \<noteq> m"
      and empty: "getTransactionsForMonth env ts m = Inr []"
  shows "(\<forall>r. calculateRolloverAmount env ts bs m = Some (Inr r)
             \<longrightarrow> calculateBudgetSummary env m ts bs d =
                   Some (Inr \<lparr>summary_month_year = m, summary_budget_amount = d + r,
                              total_transactions = 0, remaining_budget = d + r,
                              is_over_budget = (d + r < 0),
                              summary_rollover_enabled = True\<rparr>))
       \<and> ((\<forall>b\<in>set bs. wf_month_key (month_year b))
             \<longrightarrow> (\<exists>r s. calculateRolloverAmount env ts bs m = Some (Inr r)
                      \<and> calculateBudgetSummary env m ts bs d = Some (Inr s)
                      \<and> total_transactions s = 0
                      \<and> remaining_budget s = summary_budget_amount s
                      \<and> summary_budget_amount s = d + r
                      \<and> (0 \<le> d + r \<longrightarrow> \<not> is_over_budget s)))"
proof -
  have f: "find (\<lambda>b. month_year b = m) bs = None"
    using none by (simp add: find_None_iff_month)
  have t: "calculateTotalForMonth env ts m = Inr 0"
    using calculateTotalForMonth_sum [OF empty] by (simp add: withdraw_sum_def deposit_sum_def)
  have a: "calculateBudgetSummary env m ts bs d =
             Some (Inr \<lparr>summary_month_year = m, summary_budget_amount = d + r,
                        total_transactions = 0, remaining_budget = d + r,
                        is_over_budget = (d + r < 0), summary_rollover_enabled = True\<rparr>)"
    if "calculateRolloverAmount env ts bs m = Some (Inr r)" for r
    using summary_absent [OF f that t, of d] by simp
  have b: "\<exists>r s. calculateRolloverAmount env ts bs m = Some (Inr r)
                 \<and> calculateBudgetSummary env m ts bs d = Some (Inr s)
                 \<and> total_transactions s = 0
                 \<and> remaining_budget s = summary_budget_amount s
                 \<and> summary_budget_amount s = d + r
                 \<and> (0 \<le> d + r \<longrightarrow> \<not> is_over_budget s)"
    if wfb: "\<forall>b\<in>set bs. wf_month_key (month_year b)"
  proof -
    obtain r where r: "calculateRolloverAmount env ts bs m = Some (Inr r)"
      using calculateRolloverAmount_returns [OF wfb] by blast
    show ?thesis using a [OF r] r by auto
  qed
  show ?thesis using a b by blast
qed

theorem fresh_month_summary_witness:
  "''2025-10'' \<notin> set (map month_year [sample_budget 1 ''2025-09'' 1000 False])
   \<and> getTransactionsForMonth utc_host
        [sample_tx 1 800 Withdraw ''2025-09-10T09:30:00.000Z''] ''2025-10'' = Inr []
   \<and> calculateBudgetSummary utc_host ''2025-10''
        [sample_tx 1 800 Withdraw ''2025-09-10T09:30:00.000Z'']
        [sample_budget 1 ''2025-09'' 1000 False] 1000
     = Some (Inr \<lparr>summary_month_year = ''2025-10'', summary_budget_amount = 1200,
                  total_transactions = 0, remaining_budget = 1200,
                  is_over_budget = False, summary_rollover_enabled = True\<rparr>)"
proof -
  let ?ts = "[sample_tx 1 800 Withdraw ''2025-09-10T09:30:00.000Z'']"
  let ?bs = "[sample_budget 1 ''2025-09'' 1000 False]"
  have none: "\<forall>b\<in>set ?bs. month_year b \<noteq> ''2025-10''"
    by (simp add: sample_budget_def)
  have empty: "getTransactionsForMonth utc_host ?ts ''2025-10'' = Inr []"
    by code_simp
  have r: "calculateRolloverAmount utc_host ?ts ?bs ''2025-10'' = Some (Inr 200)"
    by code_simp
  have "calculateBudgetSummary utc_host ''2025-10'' ?ts ?bs 1000 =
          Some (Inr \<lparr>summary_month_year = ''2025-10'', summary_budget_amount = 1000 + 200,
                     total_transactions = 0, remaining_budget = 1000 + 200,
                     is_over_budget = ((1000::real) + 200 < 0),
                     summary_rollover_enabled = True\<rparr>)"
    using fresh_month_summary [OF none empty, where d = 1000] r by blast
  then have "calculateBudgetSummary utc_host ''2025-10'' ?ts ?bs 1000 =
          Some (Inr \<lparr>summary_month_year = ''2025-10'', summary_budget_amount = 1200,
                     total_transactions = 0, remaining_budget = 1200,
                     is_over_budget = False, summary_rollover_enabled = True\<rparr>)"
    by simp
  moreover have "''2025-10'' \<notin> set (map month_year ?bs)" using none by auto
  ultimately show ?thesis using empty by blast
qed

text \<open>
  Claim C8 as stated fails: with a budget of 1000 for September 2025, rollover disabled,
  and one withdrawal of 2500 in September, October has no record and no transaction; its
  carry-in is -1500, its budget amount with the default 1000 is -500, and the summary is
  over budget.
\<close>

theorem fresh_month_over_budget_counterexample:
  "map month_year [sample_budget 1 ''2025-09'' 1000 False] = [''2025-09'']
   \<and> getTransactionsForMonth utc_host
        [sample_tx 1 2500 Withdraw ''2025-09-15T12:00:00.000Z''] ''2025-10'' = Inr []
   \<and> calculateBudgetSummary utc_host ''2025-10''
        [sample_tx 1 2500 Withdraw ''2025-09-15T12:00:00.000Z'']
        [sample_budget 1 ''2025-09'' 1000 False] 1000
     = Some (Inr \<lparr>summary_month_year = ''2025-10'', summary_budget_amount = - 500,
                  total_transactions = 0, remaining_budget = - 500,
                  is_over_budget = True, summary_rollover_enabled = True\<rparr>)"
  by code_simp

text \<open>
  Claim C3, as amended. Let \<open>m\<close> be the month before \<open>m1\<close>, with a budget record that has rollover
  disabled. Then the carry-in of \<open>m1\<close> is the amount of that record minus the total of
  \<open>m\<close>, with nothing added from the months before \<open>m\<close>: it is the same for every list of
  budgets that holds this record for \<open>m\<close>. When \<open>m1\<close> has rollover enabled (by its record,
  or by default without a record), the budget amount of its summary is the default amount
  plus that carry-in.
\<close>

theorem rollover_chain_stops:
  assumes prev: "getPreviousMonth m1 = m"
      and f: "find (\<lambda>b. month_year b = m) bs = Some bM"
      and dis: "\<not> rollover_enabled bM"
      and t: "calculateTotalForMonth env ts m = Inr t"
  shows "calculateRolloverAmount env ts bs m1 = Some (Inr (budget_amount bM - t))
       \<and> (\<forall>bs'. find (\<lambda>b. month_year b = m) bs' = Some bM
               \<longrightarrow> calculateRolloverAmount env ts bs' m1 = calculateRolloverAmount env ts bs m1)
       \<and> (\<forall>t1. (case find (\<lambda>b. month_year b = m1) bs of
                    None \<Rightarrow> True
                  | Some b1 \<Rightarrow> rollover_enabled b1)
                \<and> calculateTotalForMonth env ts m1 = Inr t1
               \<longrightarrow> calculateBudgetSummary env m1 ts bs d =
                     Some (Inr \<lparr>summary_month_year = m1,
                                summary_budget_amount = d + (budget_amount bM - t),
                                total_transactions = t1,
                                remaining_budget = d + (budget_amount bM - t) - t1,
                                is_over_budget = (d + (budget_amount bM - t) - t1 < 0),
                                summary_rollover_enabled = True\<rparr>))"
proof -
  have c: "calculateRolloverAmount env ts bs' m1 = Some (Inr (budget_amount bM - t))"
    if "find (\<lambda>b. month_year b = m) bs' = Some bM" for bs'
    using calculateRolloverAmount_disabled [of m1 bs' bM env ts t] that dis t prev by simp
  have s: "calculateBudgetSummary env m1 ts bs d =
             Some (Inr \<lparr>summary_month_year = m1,
                        summary_budget_amount = d + (budget_amount bM - t),
                        total_transactions = t1,
                        remaining_budget = d + (budget_amount bM - t) - t1,
                        is_over_budget = (d + (budget_amount bM - t) - t1 < 0),
                        summary_rollover_enabled = True\<rparr>)"
    if en: "case find (\<lambda>b. month_year b = m1) bs of None \<Rightarrow> True | Some b1 \<Rightarrow> rollover_enabled b1"
      and t1: "calculateTotalForMonth env ts m1 = Inr t1" for t1
  proof (cases "find (\<lambda>b. month_year b = m1) bs")
    case None
    then show ?thesis using summary_absent [OF None c [OF f] t1] by simp
  next
    case (Some b1)
    then have "rollover_enabled b1" using en by simp
    then show ?thesis using summary_enabled [OF Some _ c [OF f] t1] by simp
  qed
  show ?thesis using c f s by auto
qed

theorem rollover_chain_stops_witness:
  "getPreviousMonth ''2025-10'' = ''2025-09''
   \<and> calculateRolloverAmount utc_host
        [sample_tx 1 200 Withdraw ''2025-08-20T08:00:00.000Z'',
         sample_tx 2 300 Withdraw ''2025-09-10T09:30:00.000Z'']
        [sample_budget 1 ''2025-08'' 1000 True, sample_budget 2 ''2025-09'' 1000 False,
         sample_budget 3 ''2025-10'' 1000 True] ''2025-09'' = Some (Inr 800)
   \<and> calculateRolloverAmount utc_host
        [sample_tx 1 200 Withdraw ''2025-08-20T08:00:00.000Z'',
         sample_tx 2 300 Withdraw ''2025-09-10T09:30:00.000Z'']
        [sample_budget 1 ''2025-08'' 1000 True, sample_budget 2 ''2025-09'' 1000 False,
         sample_budget 3 ''2025-10'' 1000 True] ''2025-10'' = Some (Inr 700)
   \<and> calculateBudgetSummary utc_host ''2025-10''
        [sample_tx 1 200 Withdraw ''2025-08-20T08:00:00.000Z'',
         sample_tx 2 300 Withdraw ''2025-09-10T09:30:00.000Z'']
        [sample_budget 1 ''2025-08'' 1000 True, sample_budget 2 ''2025-09'' 1000 False,
         sample_budget 3 ''2025-10'' 1000 True] 1000
     = Some (Inr \<lparr>summary_month_year = ''2025-10'', summary_budget_amount = 1700,
                  total_transactions = 0, remaining_budget = 1700,
                  is_over_budget = False, summary_rollover_enabled = True\<rparr>)"
proof -
  let ?ts = "[sample_tx 1 200 Withdraw ''2025-08-20T08:00:00.000Z'',
              sample_tx 2 300 Withdraw ''2025-09-10T09:30:00.000Z'']"
  let ?bs = "[sample_budget 1 ''2025-08'' 1000 True, sample_budget 2 ''2025-09'' 1000 False,
              sample_budget 3 ''2025-10'' 1000 True]"
  have prev: "getPreviousMonth ''2025-10'' = ''2025-09''" by code_simp
  have f: "find (\<lambda>b. month_year b = ''2025-09'') ?bs = Some (sample_budget 2 ''2025-09'' 1000 False)"
    by (simp add: sample_budget_def)
  have dis: "\<not> rollover_enabled (sample_budget 2 ''2025-09'' 1000 False)"
    by (simp add: sample_budget_def)
  have t: "calculateTotalForMonth utc_host ?ts ''2025-09'' = Inr 300" by code_simp
  have t1: "calculateTotalForMonth utc_host ?ts ''2025-10'' = Inr 0" by code_simp
  have f1: "find (\<lambda>b. month_year b = ''2025-10'') ?bs = Some (sample_budget 3 ''2025-10'' 1000 True)"
    by (simp add: sample_budget_def)
  have en: "rollover_enabled (sample_budget 3 ''2025-10'' 1000 True)"
    by (simp add: sample_budget_def)
  have up: "calculateRolloverAmount utc_host ?ts ?bs ''2025-09'' = Some (Inr 800)" by code_simp
  note th = rollover_chain_stops [OF prev f dis t, where d = 1000]
  have a: "budget_amount (sample_budget 2 ''2025-09'' 1000 False) = 1000"
    by (simp add: sample_budget_def)
  have c: "calculateRolloverAmount utc_host ?ts ?bs ''2025-10'' = Some (Inr 700)"
    using th a by simp
  have "calculateBudgetSummary utc_host ''2025-10'' ?ts ?bs 1000 =
          Some (Inr \<lparr>summary_month_year = ''2025-10'',
                     summary_budget_amount = 1000 + (budget_amount (sample_budget 2 ''2025-09'' 1000 False) - 300),
                     total_transactions = 0,
                     remaining_budget = 1000 + (budget_amount (sample_budget 2 ''2025-09'' 1000 False) - 300) - 0,
                     is_over_budget = (1000 + (budget_amount (sample_budget 2 ''2025-09'' 1000 False) - 300) - 0 < 0),
                     summary_rollover_enabled = True\<rparr>)"
    using th f1 en t1 by (simp only: option.case)
  then have s: "calculateBudgetSummary utc_host ''2025-10'' ?ts ?bs 1000 =
          Some (Inr \<lparr>summary_month_year = ''2025-10'', summary_budget_amount = 1700,
                     total_transactions = 0, remaining_budget = 1700,
                     is_over_budget = False, summary_rollover_enabled = True\<rparr>)"
    by (simp add: a)
  show ?thesis using prev up c s by blast
qed

text \<open>
  Claim C3 as stated fails: the balance of the month with rollover disabled is itself
  carried into the next month. With a budget of 1000 for September 2025, rollover
  disabled, one withdrawal of 300 in September, and rollover enabled for October, the
  carry-in of October is the September surplus of 700, and the budget amount of October's
  summary is 1700 for a default amount of 1000.
\<close>

theorem rollover_own_balance_counterexample:
  "getPreviousMonth ''2025-10'' = ''2025-09''
   \<and> map month_year
        [sample_budget 1 ''2025-09'' 1000 False, sample_budget 2 ''2025-10'' 1000 True]
       = [''2025-09'', ''2025-10'']
   \<and> map rollover_enabled
        [sample_budget 1 ''2025-09'' 1000 False, sample_budget 2 ''2025-10'' 1000 True]
       = [False, True]
   \<and> calculateTotalForMonth utc_host
        [sample_tx 1 300 Withdraw ''2025-09-10T09:30:00.000Z''] ''2025-09'' = Inr 300
   \<and> calculateRolloverAmount utc_host
        [sample_tx 1 300 Withdraw ''2025-09-10T09:30:00.000Z'']
        [sample_budget 1 ''2025-09'' 1000 False, sample_budget 2 ''2025-10'' 1000 True]
        ''2025-10'' = Some (Inr 700)
   \<and> calculateBudgetSummary utc_host ''2025-10''
        [sample_tx 1 300 Withdraw ''2025-09-10T09:30:00.000Z'']
        [sample_budget 1 ''2025-09'' 1000 False, sample_budget 2 ''2025-10'' 1000 True] 1000
       = Some (Inr \<lparr>summary_month_year = ''2025-10'', summary_budget_amount = 1700,
                    total_transactions = 0, remaining_budget = 1700,
                    is_over_budget = False, summary_rollover_enabled = True\<rparr>)"
  by code_simp

text \<open>
  Claim C1. \<open>calculateRolloverAmount\<close> is the function that the specification defines by
  recursion: on every input the two agree, also where the recursion does not end or an
  exception is thrown. In particular it satisfies the recursive equation of the
  specification, with the total of the previous month computed by
  \<open>calculateTotalForMonth\<close>. The carry-in can be negative and it can be positive.
\<close>

theorem rollover_matches_reference:
  "calculateRolloverAmount env ts bs m = rolloverCarryIn_spec env ts bs m
   \<and> calculateRolloverAmount env ts bs m =
       (case find (\<lambda>b. month_year b = getPreviousMonth m) bs of
          None \<Rightarrow> Some (Inr 0)
        | Some pb \<Rightarrow>
            Option.bind
              (if rollover_enabled pb then calculateRolloverAmount env ts bs (getPreviousMonth m)
               else Some (Inr 0))
              (\<lambda>inner.
                 Some (case inner of
                         Inl e \<Rightarrow> Inl e
                       | Inr innerCarry \<Rightarrow>
                           (case calculateTotalForMonth env ts (getPreviousMonth m) of
                              Inl e \<Rightarrow> Inl e
                            | Inr t \<Rightarrow> Inr (budget_amount pb + innerCarry - t)))))
   \<and> (\<exists>env' ts' bs' m' r. calculateRolloverAmount env' ts' bs' m' = Some (Inr r) \<and> r < 0)
   \<and> (\<exists>env' ts' bs' m' r. calculateRolloverAmount env' ts' bs' m' = Some (Inr r) \<and> 0 < r)"
proof (intro conjI)
  show "calculateRolloverAmount env ts bs m = rolloverCarryIn_spec env ts bs m"
  proof (cases "calculateRolloverAmount env ts bs m")
    case (Some v)
    then show ?thesis using code_le_spec by simp
  next
    case None
    show ?thesis
    proof (cases "rolloverCarryIn_spec env ts bs m")
      case None
      then show ?thesis using \<open>calculateRolloverAmount env ts bs m = None\<close> by simp
    next
      case (Some v)
      then have "calculateRolloverAmount env ts bs m = Some v" by (rule spec_le_code)
      then show ?thesis using Some by simp
    qed
  qed
next
  show "calculateRolloverAmount env ts bs m =
       (case find (\<lambda>b. month_year b = getPreviousMonth m) bs of
          None \<Rightarrow> Some (Inr 0)
        | Some pb \<Rightarrow>
            Option.bind
              (if rollover_enabled pb then calculateRolloverAmount env ts bs (getPreviousMonth m)
               else Some (Inr 0))
              (\<lambda>inner.
                 Some (case inner of
                         Inl e \<Rightarrow> Inl e
                       | Inr innerCarry \<Rightarrow>
                           (case calculateTotalForMonth env ts (getPreviousMonth m) of
                              Inl e \<Rightarrow> Inl e
                            | Inr t \<Rightarrow> Inr (budget_amount pb + innerCarry - t)))))"
    by (rule calculateRolloverAmount_step)
next
  have "calculateRolloverAmount utc_host
          [sample_tx 1 2500 Withdraw ''2025-09-15T12:00:00.000Z'']
          [sample_budget 1 ''2025-09'' 1000 False] ''2025-10'' = Some (Inr (- 1500))"
    by code_simp
  moreover have "(- 1500 :: real) < 0" by simp
  ultimately show "\<exists>env' ts' bs' m' r. calculateRolloverAmount env' ts' bs' m' = Some (Inr r) \<and> r < 0"
    by blast
next
  have "calculateRolloverAmount utc_host
          [sample_tx 1 800 Withdraw ''2025-09-10T09:30:00.000Z'']
          [sample_budget 1 ''2025-09'' 1000 False] ''2025-10'' = Some (Inr 200)"
    by code_simp
  moreover have "(0 :: real) < 200" by simp
  ultimately show "\<exists>env' ts' bs' m' r. calculateRolloverAmount env' ts' bs' m' = Some (Inr r) \<and> 0 < r"
    by blast
qed

theorem rollover_matches_reference_witness:
  "rolloverCarryIn_spec utc_host
     [sample_tx 1 800 Withdraw ''2025-09-10T09:30:00.000Z'',
      sample_tx 2 1300 Withdraw ''2025-10-05T18:00:00.000Z'']
     [sample_budget 1 ''2025-09'' 1000 True, sample_budget 2 ''2025-10'' 1000 True]
     ''2025-11'' = Some (Inr (- 100))"
proof -
  have "calculateRolloverAmount utc_host
     [sample_tx 1 800 Withdraw ''2025-09-10T09:30:00.000Z'',
      sample_tx 2 1300 Withdraw ''2025-10-05T18:00:00.000Z'']
     [sample_budget 1 ''2025-09'' 1000 True, sample_budget 2 ''2025-10'' 1000 True]
     ''2025-11'' = Some (Inr (- 100))"
    by code_simp
  then show ?thesis
    using rollover_matches_reference
      [of utc_host "[sample_tx 1 800 Withdraw ''2025-09-10T09:30:00.000Z'',
                     sample_tx 2 1300 Withdraw ''2025-10-05T18:00:00.000Z'']"
          "[sample_budget 1 ''2025-09'' 1000 True, sample_budget 2 ''2025-10'' 1000 True]"
          "''2025-11''"]
    by simp
qed

section \<open>Calendar months and the keys the recursion visits\<close>

lemma dec_value_zeros: "dec_value (replicate j CHR ''0'' @ s) = dec_value s"
  by (induction j) (simp_all add: dec_value_Cons digit_val_zero)

lemma pad4_props:
  assumes "n < 10000"
  shows "length (pad4 n) = 4" "list_all is_digit (pad4 n)" "dec_value (pad4 n) = n"
proof -
  have l: "length (nat_digits n) \<le> 4" using length_nat_digits_le [of n 4] assms by simp
  show "length (pad4 n) = 4" using l by (simp add: pad4_def padStart_def)
  have "list_all is_digit (replicate j CHR ''0'')" for j
    by (induction j) (simp_all add: is_digit_zero)
  then show "list_all is_digit (pad4 n)"
    by (simp add: pad4_def padStart_def nat_digits_all_digits)
  show "dec_value (pad4 n) = n"
    by (simp add: pad4_def padStart_def dec_value_zeros dec_value_nat_digits)
qed

lemma pad4_big: "1000 \<le> n \<Longrightarrow> n < 10000 \<Longrightarrow> pad4 n = nat_digits n"
  by (simp add: pad4_def padStart_def length_nat_digits_4)

lemma key_year_bound: "wf_month_key k \<Longrightarrow> key_year k < 10000"
  using key_parts_year_bound by (auto elim!: wf_month_keyE)

lemma month_before_nonjan:
  assumes wf: "wf_month_key k" and m: "key_month k \<noteq> 1"
  shows "month_before k = Some (getPreviousMonth k)"
proof -
  obtain y mo where k: "k = y @ CHR ''-'' # mo" and kp: "key_parts y mo"
    using wf by (rule wf_month_keyE)
  have n: "dec_value mo \<noteq> 1" using m kp k by simp
  show ?thesis
    using prev_parts [OF kp] n kp key_partsD(1) [OF kp] by (simp add: month_before_def k)
qed

lemma month_before_jan_big:
  assumes wf: "wf_month_key k" and m: "key_month k = 1" and yr: "1001 \<le> key_year k"
  shows "month_before k = Some (getPreviousMonth k)"
proof -
  obtain y mo where k: "k = y @ CHR ''-'' # mo" and kp: "key_parts y mo"
    using wf by (rule wf_month_keyE)
  have n: "dec_value mo = 1" using m kp k by simp
  have yv: "1001 \<le> dec_value y" "dec_value y < 10000"
    using yr kp k key_parts_year_bound [OF kp] by simp_all
  have "int (dec_value y) - 1 = int (dec_value y - 1)" using yv by simp
  then have e: "num_toString (Some (int (dec_value y) - 1)) = nat_digits (dec_value y - 1)"
    by (simp only: num_toString_nat)
  have "pad4 (dec_value y - 1) = nat_digits (dec_value y - 1)"
    using yv by (intro pad4_big) simp_all
  then show ?thesis
    using prev_parts [OF kp] n kp yv by (simp add: month_before_def k e)
qed

lemma month_before_is_before:
  assumes wf: "wf_month_key k" and b: "month_before k = Some p"
  shows "wf_month_key p \<and> month_index p + 1 = month_index k"
proof (cases "key_month k = 1")
  case False
  then have "p = getPreviousMonth k" using month_before_nonjan [OF wf False] b by simp
  moreover have "1 \<le> key_month k" using wf by (simp add: wf_month_key_def)
  ultimately show ?thesis
    using prev_wf_nonjan(1,2,3) [OF wf False] by (simp add: month_index_def)
next
  case True
  then have y0: "key_year k \<noteq> 0" and p: "p = pad4 (key_year k - 1) @ ''-12''"
    using b by (auto simp: month_before_def split: if_splits)
  have yb: "key_year k - 1 < 10000" using key_year_bound [OF wf] by simp
  have kp: "key_parts (pad4 (key_year k - 1)) ''12''"
    using pad4_props [OF yb] twelve_parts by (simp add: key_parts_def)
  have "wf_month_key p" using key_parts_wf [OF kp] by (simp add: p)
  moreover have "key_year p = key_year k - 1" "key_month p = 12"
    using key_parts_year [OF kp] key_parts_month [OF kp] pad4_props(3) [OF yb] twelve_parts(3)
    by (simp_all add: p)
  ultimately show ?thesis using True y0 by (simp add: month_index_def)
qed

lemma previous_record_is_calendar_record:
  assumes wfb: "\<forall>b\<in>set bs. wf_month_key (month_year b)"
      and dec: "\<forall>b\<in>set bs. key_month (month_year b) = 12 \<longrightarrow> 1000 \<le> key_year (month_year b)"
      and wf: "wf_month_key k"
  shows "(case month_before k of None \<Rightarrow> False | Some p \<Rightarrow> has_rollover_record bs p)
           = has_rollover_record bs (getPreviousMonth k)"
    and "has_rollover_record bs (getPreviousMonth k) \<Longrightarrow> month_before k = Some (getPreviousMonth k)"
proof -
  have small: "\<not> has_rollover_record bs (getPreviousMonth k)
               \<and> \<not> (case month_before k of None \<Rightarrow> False | Some p \<Rightarrow> has_rollover_record bs p)"
    if s: "key_month k = 1 \<and> key_year k \<le> 1000"
  proof -
    have "\<not> wf_month_key (getPreviousMonth k)"
      using prev_jan_small [OF wf] s wf_length by fastforce
    then have a: "\<not> has_rollover_record bs (getPreviousMonth k)"
      using has_rollover_record_wf [OF wfb] by blast
    have b: "\<not> has_rollover_record bs p" if p: "month_before k = Some p" for p
    proof
      assume h: "has_rollover_record bs p"
      obtain b where f: "find (\<lambda>b. month_year b = p) bs = Some b"
        using h by (auto simp: has_rollover_record_def split: option.splits)
      have pb: "b \<in> set bs" "month_year b = p" using find_month_key [OF f] by simp_all
      have ip: "wf_month_key p \<and> month_index p + 1 = month_index k"
        using month_before_is_before [OF wf p] .
      have pe: "p = pad4 (key_year k - 1) @ ''-12''"
        using p s by (auto simp: month_before_def split: if_splits)
      have yb: "key_year k - 1 < 10000" using key_year_bound [OF wf] by simp
      have kp: "key_parts (pad4 (key_year k - 1)) ''12''"
        using pad4_props [OF yb] twelve_parts by (simp add: key_parts_def)
      have "key_year p = key_year k - 1" "key_month p = 12"
        using key_parts_year [OF kp] key_parts_month [OF kp] pad4_props(3) [OF yb] twelve_parts(3)
        by (simp_all add: pe)
      then show False using dec pb s by auto
    qed
    show ?thesis using a b by (auto split: option.splits)
  qed
  have big: "month_before k = Some (getPreviousMonth k)"
    if "key_month k \<noteq> 1 \<or> 1001 \<le> key_year k"
    using that month_before_nonjan [OF wf] month_before_jan_big [OF wf] by blast
  show "(case month_before k of None \<Rightarrow> False | Some p \<Rightarrow> has_rollover_record bs p)
           = has_rollover_record bs (getPreviousMonth k)"
  proof (cases "key_month k \<noteq> 1 \<or> 1001 \<le> key_year k")
    case True
    then show ?thesis using big by simp
  next
    case False
    then have "key_month k = 1 \<and> key_year k \<le> 1000" by linarith
    then show ?thesis using small by blast
  qed
  show "month_before k = Some (getPreviousMonth k)" if h: "has_rollover_record bs (getPreviousMonth k)"
  proof (cases "key_month k \<noteq> 1 \<or> 1001 \<le> key_year k")
    case True
    then show ?thesis using big by simp
  next
    case False
    then have "key_month k = 1 \<and> key_year k \<le> 1000" by linarith
    then show ?thesis using small h by blast
  qed
qed

lemma rollover_chain_calendar:
  assumes wfb: "\<forall>b\<in>set bs. wf_month_key (month_year b)"
      and dec: "\<forall>b\<in>set bs. key_month (month_year b) = 12 \<longrightarrow> 1000 \<le> key_year (month_year b)"
  shows "wf_month_key m \<Longrightarrow> rollover_chain bs m d \<Longrightarrow> preceding_chain bs m d"
proof (induction d arbitrary: m)
  case 0
  then show ?case
    using previous_record_is_calendar_record(1) [OF wfb dec "0.prems"(1)]
    by (auto split: option.splits)
next
  case (Suc d)
  have has: "has_rollover_record bs (getPreviousMonth m)"
    and ch: "rollover_chain bs (getPreviousMonth m) d"
    using Suc.prems(2) by simp_all
  have wfp: "wf_month_key (getPreviousMonth m)"
    using has_rollover_record_wf [OF wfb has] .
  have mb: "month_before m = Some (getPreviousMonth m)"
    using previous_record_is_calendar_record(2) [OF wfb dec Suc.prems(1) has] .
  show ?case using Suc.IH [OF wfp ch] has mb by simp
qed

text \<open>
  Claim C4, as amended. When the month key of every budget record is well-formed,
  \<open>calculateRolloverAmount\<close> returns a number for every transaction list and every month,
  and its recursion depth \<open>d\<close> is the number of consecutive keys before the month, as
  \<open>getPreviousMonth\<close> computes them, that have a budget record with rollover enabled: the
  first \<open>d\<close> keys that \<open>getPreviousMonth\<close> reaches have such a record and the next one has
  not; the call returns with \<open>d + 1\<close> nested calls and not with \<open>d\<close>. When moreover the
  key of the month is well-formed and no budget record is for a December of a year before
  1000, \<open>d\<close> is the number of consecutive calendar months before the month that have a
  budget record with rollover enabled. Distinct keys are not needed.
\<close>

theorem rollover_terminates_with_depth:
  assumes wfb: "\<forall>b\<in>set bs. wf_month_key (month_year b)"
  shows "\<exists>d r. calculateRolloverAmount env ts bs m = Some (Inr r)
             \<and> calculateRolloverAmount_bounded (Suc d) env ts bs m = Some (Inr r)
             \<and> calculateRolloverAmount_bounded d env ts bs m = None
             \<and> (\<forall>i<d. has_rollover_record bs ((getPreviousMonth ^^ Suc i) m))
             \<and> \<not> has_rollover_record bs ((getPreviousMonth ^^ Suc d) m)
             \<and> (wf_month_key m
                  \<and> (\<forall>b\<in>set bs. key_month (month_year b) = 12
                                    \<longrightarrow> 1000 \<le> key_year (month_year b))
                 \<longrightarrow> preceding_chain bs m d)"
proof -
  obtain d where ch: "rollover_chain bs m d"
    using rollover_chain_exists [OF wfb] by blast
  obtain r where r: "calculateRolloverAmount_bounded (Suc d) env ts bs m = Some (Inr r)"
    and n: "calculateRolloverAmount_bounded d env ts bs m = None"
    using rollover_chain_returns [OF wfb ch] by blast
  have c: "calculateRolloverAmount env ts bs m = Some (Inr r)"
    using bounded_imp_unbounded [OF r] .
  have it: "(\<forall>i<d. has_rollover_record bs ((getPreviousMonth ^^ Suc i) m))
            \<and> \<not> has_rollover_record bs ((getPreviousMonth ^^ Suc d) m)"
    using ch unfolding rollover_chain_iterates .
  have cal: "preceding_chain bs m d"
    if "wf_month_key m
        \<and> (\<forall>b\<in>set bs. key_month (month_year b) = 12 \<longrightarrow> 1000 \<le> key_year (month_year b))"
    using rollover_chain_calendar [OF wfb _ _ ch] that by blast
  show ?thesis using c r n it cal by blast
qed

theorem rollover_terminates_with_depth_witness:
  "list_all wf_month_key
     (map month_year [sample_budget 1 ''2025-08'' 1000 True, sample_budget 2 ''2025-09'' 1000 True,
                      sample_budget 3 ''2025-10'' 1000 True])
   \<and> wf_month_key ''2025-11''
   \<and> list_all (\<lambda>k. key_month k \<noteq> 12)
        (map month_year [sample_budget 1 ''2025-08'' 1000 True, sample_budget 2 ''2025-09'' 1000 True,
                         sample_budget 3 ''2025-10'' 1000 True])
   \<and> (\<exists>r. calculateRolloverAmount utc_host []
            [sample_budget 1 ''2025-08'' 1000 True, sample_budget 2 ''2025-09'' 1000 True,
             sample_budget 3 ''2025-10'' 1000 True] ''2025-11'' = Some (Inr r)
         \<and> calculateRolloverAmount_bounded 4 utc_host []
            [sample_budget 1 ''2025-08'' 1000 True, sample_budget 2 ''2025-09'' 1000 True,
             sample_budget 3 ''2025-10'' 1000 True] ''2025-11'' = Some (Inr r))
   \<and> calculateRolloverAmount_bounded 3 utc_host []
        [sample_budget 1 ''2025-08'' 1000 True, sample_budget 2 ''2025-09'' 1000 True,
         sample_budget 3 ''2025-10'' 1000 True] ''2025-11'' = None
   \<and> preceding_chain
        [sample_budget 1 ''2025-08'' 1000 True, sample_budget 2 ''2025-09'' 1000 True,
         sample_budget 3 ''2025-10'' 1000 True] ''2025-11'' 3"
proof -
  let ?bs = "[sample_budget 1 ''2025-08'' 1000 True, sample_budget 2 ''2025-09'' 1000 True,
              sample_budget 3 ''2025-10'' 1000 True]"
  have wfl: "list_all wf_month_key (map month_year ?bs)" by code_simp
  have wfm: "wf_month_key ''2025-11''" by code_simp
  have decl: "list_all (\<lambda>k. key_month k \<noteq> 12) (map month_year ?bs)" by code_simp
  have wfb: "\<forall>b\<in>set ?bs. wf_month_key (month_year b)"
    using wfl by (simp add: list_all_iff)
  have dec: "\<forall>b\<in>set ?bs. key_month (month_year b) = 12 \<longrightarrow> 1000 \<le> key_year (month_year b)"
    using decl by (simp add: list_all_iff)
  obtain d r where
    c: "calculateRolloverAmount utc_host [] ?bs ''2025-11'' = Some (Inr r)" and
    b1: "calculateRolloverAmount_bounded (Suc d) utc_host [] ?bs ''2025-11'' = Some (Inr r)" and
    b0: "calculateRolloverAmount_bounded d utc_host [] ?bs ''2025-11'' = None" and
    it: "(\<forall>i<d. has_rollover_record ?bs ((getPreviousMonth ^^ Suc i) ''2025-11''))
         \<and> \<not> has_rollover_record ?bs ((getPreviousMonth ^^ Suc d) ''2025-11'')" and
    cal: "wf_month_key ''2025-11''
            \<and> (\<forall>b\<in>set ?bs. key_month (month_year b) = 12 \<longrightarrow> 1000 \<le> key_year (month_year b))
          \<longrightarrow> preceding_chain ?bs ''2025-11'' d"
    using rollover_terminates_with_depth [OF wfb, of utc_host "[]" "''2025-11''"] by blast
  have "rollover_chain ?bs ''2025-11'' d" unfolding rollover_chain_iterates using it .
  moreover have "rollover_chain ?bs ''2025-11'' 3" by code_simp
  ultimately have d: "d = 3" by (rule rollover_chain_unique)
  have s: "Suc d = 4" using d by simp
  have p: "preceding_chain ?bs ''2025-11'' 3" using cal wfm dec d by blast
  show ?thesis using wfl wfm decl c b1 b0 p d s by auto
qed

text \<open>
  Claim C4 as stated fails where \<open>getPreviousMonth\<close> leaves the zero-padded keys. With
  records for \<open>0999-12\<close> and \<open>1000-01\<close>, both with rollover enabled, two consecutive months
  before \<open>1000-02\<close> have such a record; but the key computed before \<open>1000-01\<close> is \<open>999-12\<close>,
  which no record has, so the recursion depth is 1: the call returns 1000 with 2 nested
  calls, and does not return with 1.
\<close>

theorem rollover_depth_counterexample:
  "list_all wf_month_key
     (map month_year [sample_budget 1 ''0999-12'' 1000 True, sample_budget 2 ''1000-01'' 1000 True])
   \<and> distinct
        (map month_year [sample_budget 1 ''0999-12'' 1000 True, sample_budget 2 ''1000-01'' 1000 True])
   \<and> preceding_chain
        [sample_budget 1 ''0999-12'' 1000 True, sample_budget 2 ''1000-01'' 1000 True] ''1000-02'' 2
   \<and> getPreviousMonth ''1000-02'' = ''1000-01''
   \<and> getPreviousMonth ''1000-01'' = ''999-12''
   \<and> calculateRolloverAmount_bounded 2 utc_host []
        [sample_budget 1 ''0999-12'' 1000 True, sample_budget 2 ''1000-01'' 1000 True] ''1000-02''
       = Some (Inr 1000)
   \<and> calculateRolloverAmount_bounded 1 utc_host []
        [sample_budget 1 ''0999-12'' 1000 True, sample_budget 2 ''1000-01'' 1000 True] ''1000-02''
       = None"
  by code_simp

section \<open>The first tracked month\<close>

lemma set_sort_insert: "set (sort_insert cmp x ys) = insert x (set ys)"
  by (induction ys) auto

lemma set_js_sort_acc:
  "set (foldl (\<lambda>acc x. sort_insert cmp x acc) acc xs) = set acc \<union> set xs"
  by (induction xs arbitrary: acc) (auto simp: set_sort_insert)

lemma set_js_sort: "set (js_sort cmp xs) = set xs"
  by (simp add: js_sort_def set_js_sort_acc)

lemma sorted_sort_insert:
  assumes cmp: "\<forall>a\<in>insert x (set ys). \<forall>b\<in>insert x (set ys). cmp a b = Some (k a - k b)"
      and srt: "sorted_wrt (\<lambda>a b. k a \<le> (k b :: int)) ys"
  shows "sorted_wrt (\<lambda>a b. k a \<le> k b) (sort_insert cmp x ys)"
  using assms
proof (induction ys)
  case Nil
  show ?case by simp
next
  case (Cons y ys)
  have c: "cmp x y = Some (k x - k y)" using Cons.prems(1) by simp
  show ?case
  proof (cases "k x < k y")
    case True
    then have "cmp_negative (cmp x y)" by (simp add: c cmp_negative_def)
    moreover have "\<forall>b\<in>set ys. k x \<le> k b" using True Cons.prems(2) by fastforce
    ultimately show ?thesis using True Cons.prems(2) by simp
  next
    case False
    then have n: "\<not> cmp_negative (cmp x y)" by (simp add: c cmp_negative_def)
    have "sorted_wrt (\<lambda>a b. k a \<le> k b) (sort_insert cmp x ys)"
      using Cons.IH Cons.prems by simp
    moreover have "\<forall>b\<in>set (sort_insert cmp x ys). k y \<le> k b"
      using False Cons.prems(2) by (auto simp: set_sort_insert)
    ultimately show ?thesis using n by simp
  qed
qed

lemma sorted_js_sort_acc:
  assumes "\<forall>a\<in>set acc \<union> set xs. \<forall>b\<in>set acc \<union> set xs. cmp a b = Some (k a - k b)"
      and "sorted_wrt (\<lambda>a b. k a \<le> (k b :: int)) acc"
  shows "sorted_wrt (\<lambda>a b. k a \<le> k b) (foldl (\<lambda>acc x. sort_insert cmp x acc) acc xs)"
  using assms
proof (induction xs arbitrary: acc)
  case Nil
  then show ?case by simp
next
  case (Cons x xs)
  have "sorted_wrt (\<lambda>a b. k a \<le> k b) (sort_insert cmp x acc)"
    using Cons.prems by (intro sorted_sort_insert) auto
  moreover have "\<forall>a\<in>set (sort_insert cmp x acc) \<union> set xs.
                 \<forall>b\<in>set (sort_insert cmp x acc) \<union> set xs. cmp a b = Some (k a - k b)"
    using Cons.prems(1) by (auto simp: set_sort_insert)
  ultimately show ?case using Cons.IH by simp
qed

lemma js_sort_head_least:
  assumes cmp: "\<forall>a\<in>set xs. \<forall>b\<in>set xs. cmp a b = Some (k a - (k b :: int))"
      and ne: "xs \<noteq> []"
  shows "\<exists>f rest. js_sort cmp xs = f # rest \<and> f \<in> set xs \<and> (\<forall>u\<in>set xs. k f \<le> k u)"
proof -
  have s: "sorted_wrt (\<lambda>a b. k a \<le> k b) (js_sort cmp xs)"
    unfolding js_sort_def using cmp by (intro sorted_js_sort_acc) auto
  have "js_sort cmp xs \<noteq> []" using set_js_sort [of cmp xs] ne by auto
  then obtain f rest where fr: "js_sort cmp xs = f # rest" by (cases "js_sort cmp xs") auto
  have "f \<in> set xs" using set_js_sort [of cmp xs] fr by auto
  moreover have "\<forall>u\<in>set xs. k f \<le> k u"
  proof
    fix u assume "u \<in> set xs"
    then have "u \<in> set (f # rest)" using set_js_sort [of cmp xs] fr by simp
    then show "k f \<le> k u" using s fr by auto
  qed
  ultimately show ?thesis using fr by blast
qed

lemma first_tracked_empty:
  "getFirstTrackedMonth env [] = date_month_key env (Some (date_now env))"
  by (simp add: getFirstTrackedMonth_def)

lemma first_tracked_earliest:
  assumes ne: "ts \<noteq> []" and valid: "\<forall>t\<in>set ts. date_parse env (timestamp t) \<noteq> None"
  shows "\<exists>t\<in>set ts.
           (\<forall>u\<in>set ts. \<not> date_lt (date_parse env (timestamp u)) (date_parse env (timestamp t)))
         \<and> getFirstTrackedMonth env ts = date_month_key env (date_parse env (timestamp t))"
proof -
  define k where "k t = (case date_parse env (timestamp t) of None \<Rightarrow> 0 | Some v \<Rightarrow> v)"
    for t :: transaction
  define cmp where
    "cmp = (\<lambda>(a :: transaction) (b :: transaction).
              num_sub (date_parse env (timestamp a)) (date_parse env (timestamp b)))"
  have kv: "date_parse env (timestamp t) = Some (k t)" if "t \<in> set ts" for t
    using valid that by (auto simp: k_def)
  have c: "\<forall>a\<in>set ts. \<forall>b\<in>set ts. cmp a b = Some (k a - k b)"
    by (simp add: cmp_def kv num_sub_def)
  obtain f rest where fr: "js_sort cmp ts = f # rest" and f: "f \<in> set ts"
    and least: "\<forall>u\<in>set ts. k f \<le> k u"
    using js_sort_head_least [OF c ne] by blast
  have "getFirstTrackedMonth env ts = date_month_key env (date_parse env (timestamp f))"
    using ne fr by (simp add: getFirstTrackedMonth_def cmp_def [symmetric])
  moreover have "\<forall>u\<in>set ts. \<not> date_lt (date_parse env (timestamp u)) (date_parse env (timestamp f))"
    using least f by (auto simp: kv date_lt_def)
  ultimately show ?thesis using f by blast
qed

text \<open>
  Claim C7. \<open>getFirstTrackedMonth\<close> returns the key of the current month for an empty
  list and, when every time stamp is a valid date, the key of the month of a transaction
  that no other transaction precedes. The carry-in evaluated at that month is 0 when no
  budget record exists for the month before it, the one key that
  \<open>calculateRolloverAmount\<close> looks up. For a well-formed key other than January of a year
  up to 1000 that key is smaller in the order of strings, so the carry-in is 0 as soon as
  no budget record has a key smaller than the first tracked month.
\<close>

theorem first_tracked_month_no_carry:
  "(find (\<lambda>b. month_year b = getPreviousMonth (getFirstTrackedMonth env ts)) bs = None
      \<longrightarrow> calculateRolloverAmount env ts bs (getFirstTrackedMonth env ts) = Some (Inr 0))
   \<and> (wf_month_key (getFirstTrackedMonth env ts)
       \<and> (key_month (getFirstTrackedMonth env ts) \<noteq> 1
            \<or> 1001 \<le> key_year (getFirstTrackedMonth env ts))
       \<and> (\<forall>b\<in>set bs. \<not> month_year b < getFirstTrackedMonth env ts)
      \<longrightarrow> calculateRolloverAmount env ts bs (getFirstTrackedMonth env ts) = Some (Inr 0))
   \<and> getFirstTrackedMonth env [] = date_month_key env (Some (date_now env))
   \<and> (ts \<noteq> [] \<and> (\<forall>t\<in>set ts. date_parse env (timestamp t) \<noteq> None)
      \<longrightarrow> (\<exists>t\<in>set ts.
             (\<forall>u\<in>set ts. \<not> date_lt (date_parse env (timestamp u)) (date_parse env (timestamp t)))
           \<and> getFirstTrackedMonth env ts = date_month_key env (date_parse env (timestamp t))))"
proof (intro conjI impI)
  assume "find (\<lambda>b. month_year b = getPreviousMonth (getFirstTrackedMonth env ts)) bs = None"
  then show "calculateRolloverAmount env ts bs (getFirstTrackedMonth env ts) = Some (Inr 0)"
    by (rule calculateRolloverAmount_no_record)
next
  let ?m = "getFirstTrackedMonth env ts"
  assume a: "wf_month_key ?m \<and> (key_month ?m \<noteq> 1 \<or> 1001 \<le> key_year ?m)
             \<and> (\<forall>b\<in>set bs. \<not> month_year b < ?m)"
  then have wf: "wf_month_key ?m" by simp
  have "getPreviousMonth ?m < ?m"
    using a prev_wf_nonjan(4) [OF wf] prev_wf_jan(4) [OF wf] by blast
  then have "\<forall>b\<in>set bs. month_year b \<noteq> getPreviousMonth ?m" using a by auto
  then have "find (\<lambda>b. month_year b = getPreviousMonth ?m) bs = None"
    by (simp add: find_None_iff_month)
  then show "calculateRolloverAmount env ts bs ?m = Some (Inr 0)"
    by (rule calculateRolloverAmount_no_record)
next
  show "getFirstTrackedMonth env [] = date_month_key env (Some (date_now env))"
    by (rule first_tracked_empty)
next
  assume "ts \<noteq> [] \<and> (\<forall>t\<in>set ts. date_parse env (timestamp t) \<noteq> None)"
  then show "\<exists>t\<in>set ts.
             (\<forall>u\<in>set ts. \<not> date_lt (date_parse env (timestamp u)) (date_parse env (timestamp t)))
           \<and> getFirstTrackedMonth env ts = date_month_key env (date_parse env (timestamp t))"
    using first_tracked_earliest by blast
qed

theorem first_tracked_month_no_carry_witness:
  "getFirstTrackedMonth utc_host
     [sample_tx 1 50 Withdraw ''2025-10-15T12:00:00.000Z'',
      sample_tx 2 75 Withdraw ''2025-09-30T23:59:59.999Z''] = ''2025-09''
   \<and> find (\<lambda>b. month_year b = getPreviousMonth ''2025-09'')
        [sample_budget 1 ''2025-09'' 1000 False, sample_budget 2 ''2025-10'' 1000 True] = None
   \<and> wf_month_key ''2025-09'' \<and> key_month ''2025-09'' \<noteq> 1
   \<and> list_all (\<lambda>k. \<not> k < ''2025-09'') [''2025-09'', ''2025-10'']
   \<and> calculateRolloverAmount utc_host
        [sample_tx 1 50 Withdraw ''2025-10-15T12:00:00.000Z'',
         sample_tx 2 75 Withdraw ''2025-09-30T23:59:59.999Z'']
        [sample_budget 1 ''2025-09'' 1000 False, sample_budget 2 ''2025-10'' 1000 True]
        ''2025-09'' = Some (Inr 0)
   \<and> getFirstTrackedMonth utc_host [] = ''2025-11''"
proof -
  let ?ts = "[sample_tx 1 50 Withdraw ''2025-10-15T12:00:00.000Z'',
              sample_tx 2 75 Withdraw ''2025-09-30T23:59:59.999Z'']"
  let ?bs = "[sample_budget 1 ''2025-09'' 1000 False, sample_budget 2 ''2025-10'' 1000 True]"
  have g: "getFirstTrackedMonth utc_host ?ts = ''2025-09''" by code_simp
  have f: "find (\<lambda>b. month_year b = getPreviousMonth ''2025-09'') ?bs = None" by code_simp
  have wf: "wf_month_key ''2025-09''" by code_simp
  have km: "key_month ''2025-09'' \<noteq> 1" by code_simp
  have lx: "list_all (\<lambda>k. \<not> k < ''2025-09'') [''2025-09'', ''2025-10'']" by code_simp
  have cur: "date_month_key utc_host (Some (date_now utc_host)) = ''2025-11''" by code_simp
  note th = first_tracked_month_no_carry [of utc_host ?ts ?bs]
  have c: "calculateRolloverAmount utc_host ?ts ?bs ''2025-09'' = Some (Inr 0)"
    using th f g by simp
  have e: "getFirstTrackedMonth utc_host [] = ''2025-11''"
    using th cur by simp
  show ?thesis using g f wf km lx c e by blast
qed

end
